theory Spec2Isabelle
  imports Main
begin

section \<open>JavaScript values\<close>

text \<open>
  The generator and the test helpers are written against untyped (\<open>any\<close>) values: the
  OpenAPI document is whatever \<open>JSON.parse\<close> or the restricted script evaluator
  returned, request bodies and context entries are arbitrary. The model therefore uses
  one tree type for all of them. An object is the association list of its own
  enumerable properties, in the order \<open>Object.keys\<close> enumerates it (the engine puts
  integer-like keys first, in ascending order, then the other keys in insertion order);
  the keys of one object are distinct. Objects and arrays are plain: their prototypes
  are \<open>Object.prototype\<close> and \<open>Array.prototype\<close>, as for everything that \<open>JSON.parse\<close>
  and an object literal build.

  A number is carried as the text that \<open>String\<close> prints for it (\<open>7\<close>, \<open>-1.5\<close>,
  \<open>1e+21\<close>, \<open>NaN\<close>), which determines the number up to the sign of zero: the modelled
  code only tests such numbers for truthiness and prints them. A string is a list of
  8-bit characters.

  \<open>JFunction n\<close> and \<open>JNative n\<close> are values that no document contains but that a
  property read can return, because a read follows the prototype chain: a built-in
  function and a built-in object of the runtime (such as \<open>Object.prototype\<close> itself),
  each known by a name.
\<close>

datatype json =
    JUndefined
  | JNull
  | JBool bool
  | JNum string
  | JStr string
  | JArr "json list"
  | JObj "(string \<times> json) list"
  | JFunction string
  | JNative string

text \<open>What a JavaScript computation can throw in the modelled code.\<close>

datatype error =
    TypeError
  | BaseUrlNotDefined
  | Thrown string

fun truthy :: "json \<Rightarrow> bool" where
  "truthy JUndefined = False"
| "truthy JNull = False"
| "truthy (JBool b) = b"
| "truthy (JNum n) = (n \<noteq> ''0'' \<and> n \<noteq> ''NaN'')"
| "truthy (JStr s) = (s \<noteq> [])"
| "truthy (JArr xs) = True"
| "truthy (JObj kvs) = True"
| "truthy (JFunction n) = True"
| "truthy (JNative n) = True"

text \<open>
  \<open>typeof v === 'object'\<close>: objects, arrays and \<open>null\<close>; the \<open>typeof\<close> of a function
  is \<open>'function'\<close>.
\<close>

fun typeof_object :: "json \<Rightarrow> bool" where
  "typeof_object JNull = True"
| "typeof_object (JArr xs) = True"
| "typeof_object (JObj kvs) = True"
| "typeof_object (JNative n) = True"
| "typeof_object v = False"

fun is_function :: "json \<Rightarrow> bool" where
  "is_function (JFunction n) = True"
| "is_function v = False"

fun typeof_string :: "json \<Rightarrow> bool" where
  "typeof_string (JStr s) = True"
| "typeof_string v = False"

subsection \<open>Characters and strings\<close>

definition is_digit :: "char \<Rightarrow> bool" where
  "is_digit c = (48 \<le> (of_char c :: nat) \<and> (of_char c :: nat) \<le> 57)"

definition is_alpha :: "char \<Rightarrow> bool" where
  "is_alpha c =
     ((65 \<le> (of_char c :: nat) \<and> (of_char c :: nat) \<le> 90) \<or>
      (97 \<le> (of_char c :: nat) \<and> (of_char c :: nat) \<le> 122))"

text \<open>The regular expression class \<open>\w\<close> (no \<open>u\<close> flag): ASCII letters, digits, underscore.\<close>

definition is_word :: "char \<Rightarrow> bool" where
  "is_word c = (is_alpha c \<or> is_digit c \<or> c = CHR ''_'')"

text \<open>
  \<open>toLowerCase\<close> and \<open>toUpperCase\<close> on ASCII letters; a character beyond ASCII is
  left as it is.
\<close>

definition to_lower :: "char \<Rightarrow> char" where
  "to_lower c =
     (if 65 \<le> (of_char c :: nat) \<and> (of_char c :: nat) \<le> 90
      then char_of (of_char c + 32 :: nat) else c)"

definition to_upper :: "char \<Rightarrow> char" where
  "to_upper c =
     (if 97 \<le> (of_char c :: nat) \<and> (of_char c :: nat) \<le> 122
      then char_of (of_char c - 32 :: nat) else c)"

definition toLowerCase :: "string \<Rightarrow> string" where
  "toLowerCase s = map to_lower s"

definition toUpperCase :: "string \<Rightarrow> string" where
  "toUpperCase s = map to_upper s"

text \<open>\<open>s.startsWith(p)\<close> and \<open>s.includes(p)\<close>.\<close>

definition startsWith :: "string \<Rightarrow> string \<Rightarrow> bool" where
  "startsWith s p = (take (length p) s = p)"

fun str_includes :: "string \<Rightarrow> string \<Rightarrow> bool" where
  "str_includes [] p = (p = [])"
| "str_includes (c # cs) p = (startsWith (c # cs) p \<or> str_includes cs p)"

text \<open>
  \<open>s.split(sep)\<close> for a one-character separator: every occurrence splits, empty pieces
  are kept, and the result always has at least one piece (\<open>"".split("/")\<close> is \<open>[""]\<close>).
\<close>

fun split_on :: "char \<Rightarrow> string \<Rightarrow> string list" where
  "split_on sep [] = [[]]"
| "split_on sep (c # cs) =
     (if c = sep then [] # split_on sep cs
      else (case split_on sep cs of
              [] \<Rightarrow> [[c]]
            | p # ps \<Rightarrow> (c # p) # ps))"

text \<open>Decimal numerals, as \<open>String(n)\<close> prints a natural number below \<open>10\<^sup>2\<^sup>1\<close>.\<close>

definition digit_char :: "nat \<Rightarrow> char" where
  "digit_char d = char_of (48 + d)"

function digits_of :: "nat \<Rightarrow> string" where
  "digits_of n = (if n < 10 then [digit_char n] else digits_of (n div 10) @ [digit_char (n mod 10)])"
  by pat_completeness auto
termination
  by (relation "measure (\<lambda>n. n)") auto

declare digits_of.simps [simp del]

definition digit_val :: "char \<Rightarrow> nat" where
  "digit_val c = of_char c - 48"

definition nat_of_digits :: "string \<Rightarrow> nat" where
  "nat_of_digits s = foldl (\<lambda>acc c. 10 * acc + digit_val c) 0 s"

text \<open>
  A property name that is an array index: a decimal numeral without a leading zero
  (\<open>"0"\<close> itself apart).
\<close>

definition array_index :: "string \<Rightarrow> nat option" where
  "array_index s =
     (if s \<noteq> [] \<and> list_all is_digit s \<and> (s = ''0'' \<or> hd s \<noteq> CHR ''0'')
      then Some (nat_of_digits s) else None)"

subsection \<open>Property access\<close>

text \<open>
  A property read \<open>v[p]\<close> looks for an own property first and then along the prototype
  chain. The built-in prototypes belong to the runtime (and a program can add to them),
  so what they hold is a parameter of the model: the properties that a plain object
  inherits from \<open>Object.prototype\<close> (in a standard runtime \<open>constructor\<close>, \<open>toString\<close>,
  \<open>valueOf\<close>, \<open>hasOwnProperty\<close>, \<open>__proto__\<close>, ...), those an array inherits from
  \<open>Array.prototype\<close> and, behind it, \<open>Object.prototype\<close>, the properties of the
  built-in objects, and the string form of the values whose conversion runs code of
  the runtime.
\<close>

record runtime =
  object_inherits :: "string \<Rightarrow> json option"
  array_inherits :: "string \<Rightarrow> json option"
  native_member :: "string \<Rightarrow> string \<Rightarrow> json"
  exotic_string :: "json \<Rightarrow> error + string"

text \<open>
  The own properties: of an object its entries, of an array and of a string the
  elements and the length. This is the whole read \<open>v[p]\<close> (for a value \<open>v\<close> that is neither
  \<open>undefined\<close> nor \<open>null\<close>) when the name \<open>p\<close> is known to be an own property or to be
  inherited by nothing: the names that \<open>Object.keys\<close> returned for \<open>v\<close>, and the fixed
  names under which the generator reads the document (\<open>paths\<close>, \<open>post\<close>, \<open>responses\<close>,
  \<open>requestBody\<close>, \<open>content\<close>, \<open>application/json\<close>, \<open>schema\<close>, \<open>$ref\<close>, \<open>properties\<close>,
  \<open>example\<close>, \<open>examples\<close>, \<open>value\<close>, \<open>callback\<close>), none of which a built-in prototype
  of the standard defines (the model is of the runtimes that add none of them). Where
  the name comes from the input, the read is \<open>get_member\<close>.
\<close>

fun own_get :: "json \<Rightarrow> string \<Rightarrow> json" where
  "own_get (JObj kvs) p = (case map_of kvs p of None \<Rightarrow> JUndefined | Some v \<Rightarrow> v)"
| "own_get (JArr xs) p =
     (if p = ''length'' then JNum (digits_of (length xs))
      else (case array_index p of
              None \<Rightarrow> JUndefined
            | Some i \<Rightarrow> if i < length xs then xs ! i else JUndefined))"
| "own_get (JStr s) p =
     (if p = ''length'' then JNum (digits_of (length s))
      else (case array_index p of
              None \<Rightarrow> JUndefined
            | Some i \<Rightarrow> if i < length s then JStr [s ! i] else JUndefined))"
| "own_get v p = JUndefined"

text \<open>
  \<open>v[p]\<close> for an arbitrary name \<open>p\<close> and a truthy \<open>v\<close> whose \<open>typeof\<close> is \<open>'object'\<close>: an
  own property hides an inherited one.
\<close>

definition inherited :: "(string \<Rightarrow> json option) \<Rightarrow> string \<Rightarrow> json" where
  "inherited proto p = (case proto p of None \<Rightarrow> JUndefined | Some v \<Rightarrow> v)"

fun get_member :: "runtime \<Rightarrow> json \<Rightarrow> string \<Rightarrow> json" where
  "get_member rt (JObj kvs) p =
     (case map_of kvs p of
        None \<Rightarrow> inherited (object_inherits rt) p
      | Some v \<Rightarrow> v)"
| "get_member rt (JArr xs) p =
     (if p = ''length'' then JNum (digits_of (length xs))
      else (case array_index p of
              None \<Rightarrow> inherited (array_inherits rt) p
            | Some i \<Rightarrow> if i < length xs then xs ! i else inherited (array_inherits rt) p))"
| "get_member rt (JNative n) p = native_member rt n p"
| "get_member rt v p = JUndefined"

text \<open>\<open>v.p\<close>: a \<open>TypeError\<close> on \<open>undefined\<close> and \<open>null\<close>.\<close>

definition get_prop :: "json \<Rightarrow> string \<Rightarrow> error + json" where
  "get_prop v p = (if v = JUndefined \<or> v = JNull then Inl TypeError else Inr (own_get v p))"

text \<open>\<open>v?.p\<close>: \<open>undefined\<close> on \<open>undefined\<close> and \<open>null\<close>.\<close>

definition get_opt :: "json \<Rightarrow> string \<Rightarrow> json" where
  "get_opt v p = (if v = JUndefined \<or> v = JNull then JUndefined else own_get v p)"

text \<open>
  \<open>Object.entries(v)\<close> and \<open>Object.keys(v)\<close> for a value that is neither \<open>undefined\<close>
  nor \<open>null\<close> (on those two they throw a \<open>TypeError\<close>; every call in the modelled
  code is guarded or is written out with its error branch).
\<close>

fun entries :: "json \<Rightarrow> (string \<times> json) list" where
  "entries (JObj kvs) = kvs"
| "entries (JArr xs) = map (\<lambda>i. (digits_of i, xs ! i)) [0 ..< length xs]"
| "entries (JStr s) = map (\<lambda>i. (digits_of i, JStr [s ! i])) [0 ..< length s]"
| "entries v = []"

definition keys :: "json \<Rightarrow> string list" where
  "keys v = map fst (entries v)"

text \<open>
  The string conversion that the result of a replacer and the substitutions of a
  template literal go through. An object is converted by the method it has under
  \<open>toString\<close> and, when there is no function under that name, by the one under
  \<open>valueOf\<close>; without a primitive result the conversion throws a \<open>TypeError\<close>. The
  built-in \<open>Object.prototype.toString\<close> returns \<open>[object Object]\<close> for a plain object,
  the built-in \<open>Object.prototype.valueOf\<close> returns the object itself, and the built-in
  \<open>Array.prototype.toString\<close> calls the \<open>join\<close> method, which in its built-in form
  concatenates the string forms of the elements, \<open>undefined\<close> and \<open>null\<close> as the empty
  string, separated by commas. A call of any other function is left to the runtime,
  as is the conversion of the runtime's own values.
\<close>

fun join_with :: "string \<Rightarrow> string list \<Rightarrow> string" where
  "join_with sep [] = []"
| "join_with sep [x] = x"
| "join_with sep (x # y # ys) = x @ sep @ join_with sep (y # ys)"

fun to_string :: "runtime \<Rightarrow> json \<Rightarrow> error + string"
and elements_string :: "runtime \<Rightarrow> json list \<Rightarrow> error + string list" where
  "to_string rt JUndefined = Inr ''undefined''"
| "to_string rt JNull = Inr ''null''"
| "to_string rt (JBool b) = Inr (if b then ''true'' else ''false'')"
| "to_string rt (JNum n) = Inr n"
| "to_string rt (JStr s) = Inr s"
| "to_string rt (JArr xs) =
     (if array_inherits rt ''toString'' = Some (JFunction ''Array.prototype.toString'') \<and>
         array_inherits rt ''join'' = Some (JFunction ''Array.prototype.join'')
      then (case elements_string rt xs of
              Inl e \<Rightarrow> Inl e
            | Inr ss \<Rightarrow> Inr (join_with '','' ss))
      else exotic_string rt (JArr xs))"
| "to_string rt (JObj kvs) =
     (let ts = get_member rt (JObj kvs) ''toString'';
          vo = get_member rt (JObj kvs) ''valueOf''
      in if ts = JFunction ''Object.prototype.toString'' then Inr ''[object Object]''
         else if is_function ts then exotic_string rt (JObj kvs)
         else if vo = JFunction ''Object.prototype.valueOf'' then Inl TypeError
         else if is_function vo then exotic_string rt (JObj kvs)
         else Inl TypeError)"
| "to_string rt (JFunction n) = exotic_string rt (JFunction n)"
| "to_string rt (JNative n) = exotic_string rt (JNative n)"
| "elements_string rt [] = Inr []"
| "elements_string rt (x # xs) =
     (case (if x = JUndefined \<or> x = JNull then Inr [] else to_string rt x) of
        Inl e \<Rightarrow> Inl e
      | Inr s \<Rightarrow>
          (case elements_string rt xs of
             Inl e \<Rightarrow> Inl e
           | Inr ss \<Rightarrow> Inr (s # ss)))"


section \<open>The request helper \<open>req\<close>\<close>

text \<open>
  \<open>req\<close> talks to the platform: the process-wide base URL, the \<open>URL\<close> constructor and
  \<open>fetch\<close>. They are parameters of the model. \<open>fetch\<close> threads a state of the outside
  world (the server may answer the same request differently the second time) and either
  rejects with an error message (a transport failure) or resolves with a response.
  Reading the response body (\<open>res.json()\<close>, \<open>res.text()\<close>) can reject as well.
\<close>

datatype payload = NoPayload | TextPayload string | JsonPayload json

record http_request =
  rq_url :: string
  rq_params :: "(string \<times> string) list"
  rq_method :: string
  rq_headers :: "(string \<times> string) list"
  rq_payload :: payload

record http_response =
  rs_status :: int
  rs_content_type :: "string option"
  rs_json :: "string + json"
  rs_text :: "string + string"

record 'w platform =
  globalThis_BASE_URL :: "string option"
  binding_BASE_URL :: "string option"
  new_URL :: "string \<Rightarrow> string \<Rightarrow> string option"
  fetch :: "'w \<Rightarrow> http_request \<Rightarrow> (string + http_response) \<times> 'w"

text \<open>The \<open>opts\<close> argument; an absent field is \<open>undefined\<close>, respectively empty.\<close>

record req_opts =
  o_body :: json
  o_headers :: "(string \<times> string) list"
  o_params :: "(string \<times> string) list"

record ReqResponse =
  status :: int
  body :: json

text \<open>
  \<open>const [method = "", path = ""] = methodPath.split(" ", 2)\<close>: the first two pieces,
  a missing piece defaulting to the empty string.
\<close>

definition piece :: "string list \<Rightarrow> nat \<Rightarrow> string" where
  "piece ps i = (if i < length ps then ps ! i else [])"

definition parse_methodPath :: "string \<Rightarrow> string \<times> string" where
  "parse_methodPath methodPath =
     (let ps = take 2 (split_on CHR '' '' methodPath) in (piece ps 0, piece ps 1))"

text \<open>
  \<open>new Headers(init)\<close>, as the Fetch standard defines it, appends the entries of \<open>init\<close>
  one by one. The value is normalised first: leading and trailing HTTP white space
  (tab, line feed, carriage return, space) is removed. A name that is not a token, or a
  normalised value that still holds a NUL, a line feed or a carriage return, makes the
  constructor throw a \<open>TypeError\<close>. Names are stored in lower case; a second value for a
  name is combined with the first, separated by a comma and a space.
\<close>

definition http_whitespace :: "char \<Rightarrow> bool" where
  "http_whitespace c = ((of_char c :: nat) \<in> {9, 10, 13, 32})"

definition normalize_value :: "string \<Rightarrow> string" where
  "normalize_value v = rev (dropWhile http_whitespace (rev (dropWhile http_whitespace v)))"

definition valid_value :: "string \<Rightarrow> bool" where
  "valid_value v = list_all (\<lambda>c. (of_char c :: nat) \<notin> {0, 10, 13}) v"

definition token_char :: "char \<Rightarrow> bool" where
  "token_char c =
     (is_alpha c \<or> is_digit c \<or>
      (of_char c :: nat) \<in> {33, 35, 36, 37, 38, 39, 42, 43, 45, 46, 94, 95, 96, 124, 126})"

definition valid_name :: "string \<Rightarrow> bool" where
  "valid_name n = (n \<noteq> [] \<and> list_all token_char n)"

fun headers_append :: "(string \<times> string) list \<Rightarrow> string \<Rightarrow> string \<Rightarrow> (string \<times> string) list" where
  "headers_append [] n v = [(n, v)]"
| "headers_append ((m, u) # h) n v =
     (if m = n then (m, u @ '', '' @ v) # h else (m, u) # headers_append h n v)"

fun fill_headers ::
  "(string \<times> string) list \<Rightarrow> (string \<times> string) list \<Rightarrow> error + (string \<times> string) list" where
  "fill_headers [] h = Inr h"
| "fill_headers ((k, v) # init) h =
     (if valid_name k \<and> valid_value (normalize_value v)
      then fill_headers init (headers_append h (toLowerCase k) (normalize_value v))
      else Inl TypeError)"

definition new_Headers :: "(string \<times> string) list \<Rightarrow> error + (string \<times> string) list" where
  "new_Headers init = fill_headers init []"

text \<open>\<open>h.has(name)\<close> for a name that is a token.\<close>

definition headers_has :: "(string \<times> string) list \<Rightarrow> string \<Rightarrow> bool" where
  "headers_has h name = (toLowerCase name \<in> set (map fst h))"

definition base_url_of :: "'w platform \<Rightarrow> string option" where
  "base_url_of pf =
     (case globalThis_BASE_URL pf of
        Some b \<Rightarrow> Some b
      | None \<Rightarrow> binding_BASE_URL pf)"

text \<open>
  What \<open>req\<close> does before it calls \<open>fetch\<close>: either it returns at once (\<open>Inl\<close>, with the
  early result or the error thrown), or it has built the request to dispatch. The
  constructors \<open>URL\<close> and \<open>Headers\<close> are called before the \<open>try\<close> block, so what they throw
  leaves \<open>req\<close>.
\<close>

definition build_request ::
  "'w platform \<Rightarrow> string \<Rightarrow> req_opts \<Rightarrow> (error + ReqResponse) + http_request" where
  "build_request pf methodPath opts =
     (let (meth, path) = parse_methodPath methodPath in
      if meth = [] \<or> path = []
      then Inl (Inr \<lparr>status = 0, body = JStr (''Invalid methodPath: '' @ methodPath)\<rparr>)
      else (case base_url_of pf of
              None \<Rightarrow> Inl (Inl BaseUrlNotDefined)
            | Some baseUrl \<Rightarrow>
               (case new_URL pf path baseUrl of
                  None \<Rightarrow> Inl (Inl TypeError)
                | Some url \<Rightarrow>
                   (case new_Headers (o_headers opts) of
                      Inl e \<Rightarrow> Inl (Inl e)
                    | Inr h \<Rightarrow>
                       (let b = o_body opts;
                            sends = (truthy b \<and> (typeof_object b \<or> typeof_string b));
                            pl = (if sends
                                  then (case b of JStr s \<Rightarrow> TextPayload s | _ \<Rightarrow> JsonPayload b)
                                  else NoPayload);
                            h' = (if sends \<and> \<not> headers_has h ''content-type''
                                  then h @ [(''content-type'', ''application/json'')] else h)
                        in Inr \<lparr>rq_url = url, rq_params = o_params opts, rq_method = meth,
                                rq_headers = h', rq_payload = pl\<rparr>)))))"

text \<open>
  The \<open>try\<close> block: a rejected \<open>fetch\<close> and a rejected body read both end in the
  \<open>catch\<close>, which returns status \<open>0\<close> with the error's message.
\<close>

definition read_response :: "http_response \<Rightarrow> ReqResponse" where
  "read_response res =
     (let isJson = str_includes (case rs_content_type res of None \<Rightarrow> [] | Some c \<Rightarrow> c)
                     ''application/json''
      in if isJson
         then (case rs_json res of
                 Inl msg \<Rightarrow> \<lparr>status = 0, body = JStr msg\<rparr>
               | Inr v \<Rightarrow> \<lparr>status = rs_status res, body = v\<rparr>)
         else (case rs_text res of
                 Inl msg \<Rightarrow> \<lparr>status = 0, body = JStr msg\<rparr>
               | Inr s \<Rightarrow> \<lparr>status = rs_status res, body = JStr s\<rparr>))"

text \<open>
  \<open>req\<close> returns its result (or the error it throws), the new state of the world and
  the list of requests it dispatched.
\<close>

definition req ::
  "'w platform \<Rightarrow> string \<Rightarrow> req_opts \<Rightarrow> 'w \<Rightarrow> (error + ReqResponse) \<times> 'w \<times> http_request list" where
  "req pf methodPath opts w =
     (case build_request pf methodPath opts of
        Inl early \<Rightarrow> (early, w, [])
      | Inr rq \<Rightarrow>
         (case fetch pf w rq of
            (Inl msg, w') \<Rightarrow> (Inr \<lparr>status = 0, body = JStr msg\<rparr>, w', [rq])
          | (Inr res, w') \<Rightarrow> (Inr (read_response res), w', [rq])))"

section \<open>The queued-test runner\<close>

text \<open>
  The shared context \<open>ctx\<close> is created by the object literal \<open>{}\<close>: a plain object. The
  map holds its own properties (the callbacks add them); a read \<open>ctx[k]\<close> of a name that
  is not among them goes on to \<open>Object.prototype\<close>.
\<close>

type_synonym ctx = "string \<Rightarrow> json option"

definition ctx_get :: "runtime \<Rightarrow> ctx \<Rightarrow> string \<Rightarrow> json" where
  "ctx_get rt c k = (case c k of None \<Rightarrow> inherited (object_inherits rt) k | Some v \<Rightarrow> v)"

text \<open>
  A queued test \<open>[url, auth, expStatus, body, save]\<close>. The callback \<open>save(res, ctx)\<close>
  may mutate the context and may throw (the generated callbacks are assertions that
  throw when they fail).
\<close>

record QueuedTest =
  q_url :: string
  q_auth :: bool
  q_expStatus :: int
  q_body :: json
  q_save :: "(ReqResponse \<Rightarrow> ctx \<Rightarrow> error + ctx) option"

text \<open>
  \<open>url.replace(/\$([a-z]\w*)/gi, (_, k) => ctx[k])\<close>: every match of a dollar sign, a
  letter and the longest run of word characters after it is replaced by the string
  form of what the replacer returns. The matches are handled from left to right; a
  string conversion that throws ends the whole replacement.
\<close>

function interpolate :: "runtime \<Rightarrow> ctx \<Rightarrow> string \<Rightarrow> error + string" where
  "interpolate rt c [] = Inr []"
| "interpolate rt c (x # xs) =
     (if x = CHR ''$'' \<and> xs \<noteq> [] \<and> is_alpha (hd xs)
      then (case to_string rt (ctx_get rt c (takeWhile is_word xs)) of
              Inl e \<Rightarrow> Inl e
            | Inr s \<Rightarrow>
                (case interpolate rt c (dropWhile is_word xs) of
                   Inl e \<Rightarrow> Inl e
                 | Inr r \<Rightarrow> Inr (s @ r)))
      else (case interpolate rt c xs of
              Inl e \<Rightarrow> Inl e
            | Inr r \<Rightarrow> Inr (x # r)))"
  by pat_completeness auto
termination
  by (relation "measure (\<lambda>(rt, c, s). length s)") (auto simp: length_dropWhile_le less_Suc_eq_le)

declare interpolate.simps [simp del]

text \<open>
  The headers of a queued test: \<open>auth && ctx.token ? {Authorization: `Bearer
  ${ctx.token}`} : {}\<close>.
\<close>

definition auth_headers :: "runtime \<Rightarrow> bool \<Rightarrow> ctx \<Rightarrow> error + (string \<times> string) list" where
  "auth_headers rt auth c =
     (if auth \<and> truthy (ctx_get rt c ''token'')
      then (case to_string rt (ctx_get rt c ''token'') of
              Inl e \<Rightarrow> Inl e
            | Inr s \<Rightarrow> Inr [(''Authorization'', ''Bearer '' @ s)])
      else Inr [])"

text \<open>
  What one iteration does before it calls \<open>req\<close>: the path with its tokens replaced,
  then the headers; the body defaults to \<open>null\<close>.
\<close>

definition prepare :: "runtime \<Rightarrow> QueuedTest \<Rightarrow> ctx \<Rightarrow> error + string \<times> req_opts" where
  "prepare rt t c =
     (case interpolate rt c (q_url t) of
        Inl e \<Rightarrow> Inl e
      | Inr path \<Rightarrow>
          (case auth_headers rt (q_auth t) c of
             Inl e \<Rightarrow> Inl e
           | Inr headers \<Rightarrow>
               Inr (path, \<lparr>o_body = (if q_body t = JUndefined then JNull else q_body t),
                           o_headers = headers, o_params = []\<rparr>)))"

text \<open>
  How the execution of one queued test ends: the status matched and the callback (if any)
  returned, the status differed, the callback threw, or the preparation or \<open>req\<close> itself
  threw.
\<close>

datatype case_end =
    Passed ReqResponse ctx
  | Mismatch ReqResponse
  | CallbackThrew ReqResponse error
  | Threw error

text \<open>What follows the response \<open>res\<close> that \<open>req\<close> returned.\<close>

definition judge :: "QueuedTest \<Rightarrow> ctx \<Rightarrow> ReqResponse \<Rightarrow> case_end" where
  "judge t c res =
     (if status res = q_expStatus t
      then (case q_save t of
              None \<Rightarrow> Passed res c
            | Some save \<Rightarrow>
                (case save res c of
                   Inl e \<Rightarrow> CallbackThrew res e
                 | Inr c' \<Rightarrow> Passed res c'))
      else Mismatch res)"

definition run_case ::
  "runtime \<Rightarrow> 'w platform \<Rightarrow> QueuedTest \<Rightarrow> ctx \<Rightarrow> 'w \<Rightarrow> case_end \<times> 'w \<times> http_request list" where
  "run_case rt pf t c w =
     (case prepare rt t c of
        Inl e \<Rightarrow> (Threw e, w, [])
      | Inr (path, opts) \<Rightarrow>
          (case req pf path opts w of
             (Inl e, w', sent) \<Rightarrow> (Threw e, w', sent)
           | (Inr res, w', sent) \<Rightarrow> (judge t c res, w', sent)))"

text \<open>
  The run: the process exits with code \<open>0\<close> after the last test, with code \<open>1\<close> at the
  first mismatch, and the promise rejects when something throws. The trace records,
  for every test that was executed, the test, the context and the state of the world it
  started from, the requests it dispatched, how it ended and the state of the world it
  left.
\<close>

datatype run_end = Exit0 | Exit1 | Rejected error

record 'w executed =
  e_test :: QueuedTest
  e_ctx :: ctx
  e_world :: 'w
  e_sent :: "http_request list"
  e_end :: case_end
  e_after :: 'w

fun runQueuedTests ::
  "runtime \<Rightarrow> 'w platform \<Rightarrow> QueuedTest list \<Rightarrow> ctx \<Rightarrow> 'w \<Rightarrow> run_end \<times> 'w executed list" where
  "runQueuedTests rt pf [] c w = (Exit0, [])"
| "runQueuedTests rt pf (t # ts) c w =
     (case run_case rt pf t c w of
        (e, w', sent) \<Rightarrow>
          (let entry = \<lparr>e_test = t, e_ctx = c, e_world = w, e_sent = sent, e_end = e,
                         e_after = w'\<rparr> in
           case e of
             Passed res c' \<Rightarrow> (case runQueuedTests rt pf ts c' w' of (r, tr) \<Rightarrow> (r, entry # tr))
           | Mismatch res \<Rightarrow> (Exit1, [entry])
           | CallbackThrew res err \<Rightarrow> (Rejected err, [entry])
           | Threw err \<Rightarrow> (Rejected err, [entry])))"

fun is_Passed :: "case_end \<Rightarrow> bool" where
  "is_Passed (Passed res c) = True"
| "is_Passed e = False"

fun is_Mismatch :: "case_end \<Rightarrow> bool" where
  "is_Mismatch (Mismatch res) = True"
| "is_Mismatch e = False"

fun thrown_by :: "case_end \<Rightarrow> error option" where
  "thrown_by (CallbackThrew res err) = Some err"
| "thrown_by (Threw err) = Some err"
| "thrown_by e = None"

section \<open>The generator: reference resolution\<close>

text \<open>The loop of \<open>resolveRef\<close> over the path segments.\<close>

fun resolveRef_loop :: "runtime \<Rightarrow> json \<Rightarrow> string list \<Rightarrow> json" where
  "resolveRef_loop rt cur [] = cur"
| "resolveRef_loop rt cur (p # ps) =
     (if truthy cur \<and> typeof_object cur then resolveRef_loop rt (get_member rt cur p) ps
      else JUndefined)"

definition resolveRef :: "runtime \<Rightarrow> json \<Rightarrow> string \<Rightarrow> json" where
  "resolveRef rt obj ref =
     (if \<not> startsWith ref ''#/'' then JUndefined
      else resolveRef_loop rt obj (split_on CHR ''/'' (drop 2 ref)))"

text \<open>
  The callers pass whatever truthy value sits under \<open>$ref\<close>; on a value that is not a
  string, \<open>ref.startsWith\<close> is not a function and the call throws.
\<close>

definition resolveRef_any :: "runtime \<Rightarrow> json \<Rightarrow> json \<Rightarrow> error + json" where
  "resolveRef_any rt obj ref =
     (case ref of JStr s \<Rightarrow> Inr (resolveRef rt obj s) | _ \<Rightarrow> Inl TypeError)"

text \<open>
  The resolver as the specification words it: a segment exists in a node when the node
  is an object or an array that has it as a property of its own; the walk indexes
  successively and is undefined as soon as a segment is missing. The lookup of the
  specification is written out here by itself, on the tree.
\<close>

fun child :: "json \<Rightarrow> string \<Rightarrow> json option" where
  "child (JObj kvs) p = map_of kvs p"
| "child (JArr xs) p =
     (if p = ''length'' then Some (JNum (digits_of (length xs)))
      else (case array_index p of
              None \<Rightarrow> None
            | Some i \<Rightarrow> if i < length xs then Some (xs ! i) else None))"
| "child v p = None"

fun subtree_at :: "json \<Rightarrow> string list \<Rightarrow> json option" where
  "subtree_at d [] = Some d"
| "subtree_at d (p # ps) =
     (case child d p of
        None \<Rightarrow> None
      | Some v \<Rightarrow> subtree_at v ps)"

text \<open>
  The first segment of a walk that is missing, with the node in which it is missing
  (\<open>None\<close> when every segment exists).
\<close>

fun first_missing :: "json \<Rightarrow> string list \<Rightarrow> (json \<times> string) option" where
  "first_missing d [] = None"
| "first_missing d (p # ps) =
     (case child d p of
        None \<Rightarrow> Some (d, p)
      | Some v \<Rightarrow> first_missing v ps)"

definition spec_resolve :: "json \<Rightarrow> string \<Rightarrow> json" where
  "spec_resolve doc ref =
     (if startsWith ref ''#/''
      then (case subtree_at doc (split_on CHR ''/'' (drop 2 ref)) of
              None \<Rightarrow> JUndefined
            | Some v \<Rightarrow> v)
      else JUndefined)"

section \<open>The generator: ordering of status codes\<close>

text \<open>\<open>parseInt(s, 10)\<close>: leading white space, an optional sign, then decimal digits;
  \<open>NaN\<close> (here \<open>None\<close>) when no digit follows. The value is exact as long as it is
  below \<open>2^53\<close>, which sixteen digits can exceed and fifteen cannot.\<close>

definition is_space :: "char \<Rightarrow> bool" where
  "is_space c = ((of_char c :: nat) \<in> {9, 10, 11, 12, 13, 32})"

definition parseInt :: "string \<Rightarrow> int option" where
  "parseInt s =
     (let t = dropWhile is_space s;
          neg = (t \<noteq> [] \<and> hd t = CHR ''-'');
          u = (if t \<noteq> [] \<and> (hd t = CHR ''-'' \<or> hd t = CHR ''+'') then tl t else t);
          ds = takeWhile is_digit u
      in if ds = [] then None
         else Some (if neg then - int (nat_of_digits ds) else int (nat_of_digits ds)))"

text \<open>\<open>aNum >= 400 && aNum < 600\<close>; every comparison with \<open>NaN\<close> is false.\<close>

definition in_error_range :: "int option \<Rightarrow> bool" where
  "in_error_range n = (case n of None \<Rightarrow> False | Some x \<Rightarrow> 400 \<le> x \<and> x < 600)"

text \<open>The comparator of \<open>sortStatusCodes\<close>; \<open>None\<close> is the result \<open>NaN\<close>.\<close>

definition status_cmp :: "string \<Rightarrow> string \<Rightarrow> int option" where
  "status_cmp a b =
     (let aNum = parseInt a; bNum = parseInt b;
          aIsNeg = in_error_range aNum; bIsNeg = in_error_range bNum
      in if aIsNeg \<and> \<not> bIsNeg then Some (- 1)
         else if \<not> aIsNeg \<and> bIsNeg then Some 1
         else (case (aNum, bNum) of
                 (Some x, Some y) \<Rightarrow> Some (x - y)
               | _ \<Rightarrow> None))"

text \<open>
  \<open>Array.prototype.sort\<close> with a comparator. An element goes before another when the
  comparator's result is negative; \<open>NaN\<close> counts as zero. The sort is stable. For a
  comparator that orders its inputs consistently the result is determined by these
  rules, whatever the engine's algorithm; the model is the stable insertion sort.
\<close>

definition sort_before :: "('a \<Rightarrow> 'a \<Rightarrow> int option) \<Rightarrow> 'a \<Rightarrow> 'a \<Rightarrow> bool" where
  "sort_before cmp a b = (case cmp a b of None \<Rightarrow> False | Some v \<Rightarrow> v < 0)"

fun js_insert :: "('a \<Rightarrow> 'a \<Rightarrow> int option) \<Rightarrow> 'a \<Rightarrow> 'a list \<Rightarrow> 'a list" where
  "js_insert cmp x [] = [x]"
| "js_insert cmp x (y # ys) =
     (if sort_before cmp y x then y # js_insert cmp x ys else x # y # ys)"

definition js_sort :: "('a \<Rightarrow> 'a \<Rightarrow> int option) \<Rightarrow> 'a list \<Rightarrow> 'a list" where
  "js_sort cmp xs = foldr (js_insert cmp) xs []"

definition sortStatusCodes :: "string list \<Rightarrow> string list" where
  "sortStatusCodes statusCodes = js_sort status_cmp statusCodes"

text \<open>\<open>sortStatusCodes(statusCodes).filter((code) => code !== "500")\<close>.\<close>

definition emitted_codes :: "string list \<Rightarrow> string list" where
  "emitted_codes statusCodes = filter (\<lambda>code. code \<noteq> ''500'') (sortStatusCodes statusCodes)"

text \<open>
  The ordering rule as the specification words it, for numeric status codes: a code in
  the range 400 to 599 never comes after a code outside it, and within each of the two
  groups the codes ascend.
\<close>

definition numeric_code :: "string \<Rightarrow> bool" where
  "numeric_code s = (s \<noteq> [] \<and> list_all is_digit s \<and> length s \<le> 15)"

definition code_number :: "string \<Rightarrow> nat" where
  "code_number s = nat_of_digits s"

definition error_code :: "string \<Rightarrow> bool" where
  "error_code s = (400 \<le> code_number s \<and> code_number s < 600)"

definition status_before :: "string \<Rightarrow> string \<Rightarrow> bool" where
  "status_before a b =
     ((error_code b \<longrightarrow> error_code a) \<and>
      (error_code a = error_code b \<longrightarrow> code_number a \<le> code_number b))"

section \<open>The generator: example extraction\<close>

definition bind_err :: "error + 'a \<Rightarrow> ('a \<Rightarrow> error + 'b) \<Rightarrow> error + 'b" where
  "bind_err m f = (case m of Inl e \<Rightarrow> Inl e | Inr x \<Rightarrow> f x)"

text \<open>\<open>Object.keys(v)[0]\<close>.\<close>

definition first_key :: "json \<Rightarrow> string option" where
  "first_key v = (case keys v of [] \<Rightarrow> None | k # ks \<Rightarrow> Some k)"

text \<open>
  The loop \<open>for (const [k, v] of Object.entries(properties)) if (v.example !== undefined)
  exampleBody[k] = v.example\<close>; reading \<open>v.example\<close> throws on \<open>null\<close>. The object
  \<open>exampleBody\<close> starts as \<open>{}\<close>, and an assignment creates an own property, with one
  exception: where \<open>Object.prototype\<close> has the accessor \<open>__proto__\<close>, an assignment under
  that name sets the prototype of \<open>exampleBody\<close> (or does nothing) and creates no
  property. The generator only prints \<open>exampleBody\<close>, and \<open>JSON.stringify\<close> prints own
  properties.
\<close>

fun collect_examples :: "runtime \<Rightarrow> (string \<times> json) list \<Rightarrow> error + (string \<times> json) list" where
  "collect_examples rt [] = Inr []"
| "collect_examples rt ((k, v) # kvs) =
     (case get_prop v ''example'' of
        Inl e \<Rightarrow> Inl e
      | Inr ex \<Rightarrow>
          (case collect_examples rt kvs of
             Inl e \<Rightarrow> Inl e
           | Inr rest \<Rightarrow>
               Inr (if ex \<noteq> JUndefined \<and> \<not> (k = ''__proto__'' \<and> object_inherits rt k \<noteq> None)
                    then (k, ex) # rest else rest)))"

text \<open>
  The extraction of \<open>exampleBody\<close> from the media node \<open>jsonContent\<close>. The generator has
  three copies of this code. The copy of the general pass reads \<open>ex?.value\<close>; the copies
  for the prioritised routes and for \<open>/sessions\<close> read \<open>exs[k].value\<close>, which throws on
  \<open>null\<close> (\<open>strict\<close>).
\<close>

definition examples_value :: "bool \<Rightarrow> json \<Rightarrow> error + json" where
  "examples_value strict jsonContent =
     (let exs = own_get jsonContent ''examples'' in
      if truthy exs
      then (case first_key exs of
              None \<Rightarrow> Inr JUndefined
            | Some k \<Rightarrow>
                if k = [] then Inr JUndefined
                else if strict then get_prop (own_get exs k) ''value''
                else Inr (get_opt (own_get exs k) ''value''))
      else Inr JUndefined)"

definition schema_example :: "runtime \<Rightarrow> json \<Rightarrow> json \<Rightarrow> error + json" where
  "schema_example rt doc sch =
     bind_err (if truthy (own_get sch ''$ref'')
               then resolveRef_any rt doc (own_get sch ''$ref'') else Inr sch)
       (\<lambda>resolved.
          bind_err (get_prop resolved ''example'')
            (\<lambda>ex. if ex \<noteq> JUndefined then Inr ex
                  else if truthy (own_get resolved ''properties'')
                  then bind_err (collect_examples rt (entries (own_get resolved ''properties'')))
                         (\<lambda>kvs. Inr (JObj kvs))
                  else Inr JUndefined))"

definition media_example :: "runtime \<Rightarrow> bool \<Rightarrow> json \<Rightarrow> json \<Rightarrow> error + json" where
  "media_example rt strict doc jsonContent =
     (if \<not> truthy jsonContent then Inr JUndefined
      else bind_err (examples_value strict jsonContent)
             (\<lambda>e1. let e2 = (if e1 = JUndefined \<and> own_get jsonContent ''example'' \<noteq> JUndefined
                              then own_get jsonContent ''example'' else e1);
                        sch = own_get jsonContent ''schema''
                    in if e2 = JUndefined \<and> truthy sch then schema_example rt doc sch
                       else Inr e2))"

text \<open>\<open>detail.requestBody?.content?.["application/json"]\<close> and the extraction from it.\<close>

definition request_example :: "runtime \<Rightarrow> bool \<Rightarrow> json \<Rightarrow> json \<Rightarrow> error + json" where
  "request_example rt strict doc detail =
     bind_err (get_prop detail ''requestBody'')
       (\<lambda>rb. media_example rt strict doc (get_opt (get_opt rb ''content'') ''application/json''))"

text \<open>
  \<open>Object.entries(schema.properties).filter(([_, v]) => typeof v === "object" &&
  v.example !== undefined).map(([k]) => k)\<close>; \<open>typeof null\<close> is \<open>"object"\<close>, so a
  \<open>null\<close> property throws.
\<close>

fun fields_with_examples :: "(string \<times> json) list \<Rightarrow> error + string list" where
  "fields_with_examples [] = Inr []"
| "fields_with_examples ((k, v) # kvs) =
     (if typeof_object v
      then (case get_prop v ''example'' of
              Inl e \<Rightarrow> Inl e
            | Inr ex \<Rightarrow>
                (case fields_with_examples kvs of
                   Inl e \<Rightarrow> Inl e
                 | Inr ks \<Rightarrow> Inr (if ex \<noteq> JUndefined then k # ks else ks)))
      else fields_with_examples kvs)"

definition extractResponseExamples :: "json \<Rightarrow> json" where
  "extractResponseExamples respObj =
     (if \<not> truthy respObj \<or> \<not> typeof_object respObj then JUndefined
      else (let media = get_opt (own_get respObj ''content'') ''application/json'';
                examples = get_opt media ''examples'';
                v = (case first_key examples of
                       None \<Rightarrow> JUndefined
                     | Some k \<Rightarrow> if k = [] then JUndefined
                                 else get_opt (own_get examples k) ''value'')
            in if truthy examples \<and> truthy v then v
               else if truthy (get_opt media ''example'') then get_opt media ''example''
               else JUndefined))"

text \<open>
  The three steps that fill \<open>responseExample\<close>, from the media node \<open>contentJson\<close>, its
  \<open>schema\<close> and the response node as it stands in the operation (\<open>originalRespJson\<close>).
  \<open>Object.keys(examples)[0]\<close> is used as a property name even when it is \<open>undefined\<close>.
\<close>

definition content_example :: "json \<Rightarrow> json" where
  "content_example contentJson =
     (if truthy (get_opt contentJson ''example'') then get_opt contentJson ''example''
      else if truthy (get_opt contentJson ''examples'')
      then (let exs = get_opt contentJson ''examples'';
                k = (case first_key exs of None \<Rightarrow> ''undefined'' | Some k \<Rightarrow> k)
            in get_opt (own_get exs k) ''value'')
      else JUndefined)"

definition response_example :: "runtime \<Rightarrow> json \<Rightarrow> json \<Rightarrow> json \<Rightarrow> json \<Rightarrow> error + json" where
  "response_example rt doc originalRespJson contentJson schema =
     (let r1 = content_example contentJson in
      bind_err (if r1 = JUndefined \<and> truthy (get_opt schema ''$ref'')
                then bind_err (resolveRef_any rt doc (get_opt schema ''$ref''))
                       (\<lambda>refSchema. Inr (if truthy (get_opt refSchema ''example'')
                                          then get_opt refSchema ''example'' else r1))
                else Inr r1)
        (\<lambda>r2. if r2 = JUndefined \<and> truthy (get_opt originalRespJson ''$ref'')
               then bind_err (resolveRef_any rt doc (get_opt originalRespJson ''$ref''))
                      (\<lambda>refResp. Inr (if truthy refResp \<and> truthy (extractResponseExamples refResp)
                                        then extractResponseExamples refResp else r2))
               else Inr r2))"

text \<open>
  The ``unified response handling'' for one status code: the names of the fields with
  examples and the response example.
\<close>

definition response_parts :: "runtime \<Rightarrow> json \<Rightarrow> json \<Rightarrow> string \<Rightarrow> error + string list \<times> json" where
  "response_parts rt doc detail code =
     bind_err (get_prop detail ''responses'')
       (\<lambda>responses.
          let originalRespJson = get_opt responses code in
          bind_err (if truthy (get_opt originalRespJson ''$ref'')
                    then bind_err (resolveRef_any rt doc (get_opt originalRespJson ''$ref''))
                           (\<lambda>r. Inr (if truthy r then r else originalRespJson))
                    else Inr originalRespJson)
            (\<lambda>respJson.
               let contentJson = get_opt (get_opt respJson ''content'') ''application/json'';
                   schema = get_opt contentJson ''schema''
               in bind_err (if truthy (get_opt schema ''properties'')
                            then fields_with_examples (entries (get_opt schema ''properties''))
                            else Inr [])
                    (\<lambda>fieldsWithExamples.
                       bind_err (response_example rt doc originalRespJson contentJson schema)
                         (\<lambda>responseExample. Inr (fieldsWithExamples, responseExample)))))"

section \<open>The generator: emitted lines\<close>

text \<open>
  The generator pushes text lines. A test line \<open>t("METHOD /route", false, code, body,
  callback)\<close> is kept in its parts: the descriptor, the status code as it is spliced
  into the line, the body before \<open>JSON.stringify\<close> (absent for \<open>GET\<close> and \<open>DELETE\<close>)
  and the fields the callback asserts with \<open>expect_field\<close> (one name or a list of
  names; no callback when the line has none).
\<close>

datatype callback = NoCallback | ExpectFields "string list"

record TestLine =
  t_url :: string
  t_auth :: bool
  t_code :: string
  t_body :: "json option"
  t_callback :: callback

datatype line =
    SwaggerUrlLine string
  | BaseUrlLine string
  | BlankLine
  | CommentLine
  | UsernameLine
  | PasswordLine
  | ProbeLine
  | TestCase TestLine
  | WarningLine
  | RunLine

text \<open>\<open>exampleBody ?? {}\<close>.\<close>

definition or_empty :: "json \<Rightarrow> json" where
  "or_empty v = (if v = JUndefined \<or> v = JNull then JObj [] else v)"

text \<open>\<open>Object.keys(detail.responses || {})\<close>, for a \<open>detail\<close> that is not \<open>null\<close>.\<close>

definition response_codes :: "json \<Rightarrow> string list" where
  "response_codes detail =
     (let r = own_get detail ''responses'' in keys (if truthy r then r else JObj []))"

text \<open>The choice of the test line for a method other than \<open>GET\<close> and \<open>DELETE\<close>.\<close>

definition emit_line ::
  "string \<Rightarrow> string \<Rightarrow> string \<Rightarrow> json \<Rightarrow> string list \<Rightarrow> json \<Rightarrow> TestLine" where
  "emit_line meth route code exampleBody fieldsWithExamples responseExample =
     (let l = \<lparr>t_url = toUpperCase meth @ '' '' @ route, t_auth = False, t_code = code,
               t_body = Some (JObj []), t_callback = NoCallback\<rparr>
      in if fieldsWithExamples \<noteq> []
         then l\<lparr>t_callback := ExpectFields fieldsWithExamples\<rparr>
         else if truthy responseExample \<and> typeof_object responseExample
         then (let fns = keys responseExample in
               if fns \<noteq> []
               then l\<lparr>t_body := Some (or_empty exampleBody), t_callback := ExpectFields fns\<rparr>
               else l\<lparr>t_body := Some (or_empty exampleBody)\<rparr>)
         else if exampleBody \<noteq> JUndefined
         then l\<lparr>t_body := Some exampleBody\<rparr>
         else if in_error_range (parseInt code)
         then l\<lparr>t_callback := ExpectFields [''message'']\<rparr>
         else l)"

text \<open>The body of the \<open>forEach\<close> of the general pass: the line for one status code.\<close>

definition emit_case :: "runtime \<Rightarrow> json \<Rightarrow> string \<Rightarrow> string \<Rightarrow> json \<Rightarrow> string \<Rightarrow> error + line" where
  "emit_case rt doc route meth detail code =
     (if toLowerCase meth \<in> {''get'', ''delete''}
      then Inr (TestCase \<lparr>t_url = toUpperCase meth @ '' '' @ route, t_auth = False,
                          t_code = code, t_body = None, t_callback = NoCallback\<rparr>)
      else bind_err (request_example rt False doc detail)
             (\<lambda>exampleBody.
                bind_err (response_parts rt doc detail code)
                  (\<lambda>(fieldsWithExamples, responseExample).
                     Inr (TestCase (emit_line meth route code exampleBody
                                      fieldsWithExamples responseExample)))))"

fun map_err :: "('a \<Rightarrow> error + 'b) \<Rightarrow> 'a list \<Rightarrow> error + 'b list" where
  "map_err f [] = Inr []"
| "map_err f (x # xs) =
     (case f x of
        Inl e \<Rightarrow> Inl e
      | Inr y \<Rightarrow> (case map_err f xs of Inl e \<Rightarrow> Inl e | Inr ys \<Rightarrow> Inr (y # ys)))"

text \<open>The lines of one (route, method) group of the general pass.\<close>

definition emit_group :: "runtime \<Rightarrow> json \<Rightarrow> string \<Rightarrow> string \<Rightarrow> json \<Rightarrow> error + line list" where
  "emit_group rt doc route meth detail =
     bind_err (get_prop detail ''responses'')
       (\<lambda>r. map_err (emit_case rt doc route meth detail) (emitted_codes (response_codes detail)))"

section \<open>The generator: the plan\<close>

text \<open>
  \<open>pathList\<close>: the entries of \<open>paths\<close>, sorted by priority. The comparator reads
  \<open>Object.keys(item.methods)\<close>, which throws on \<open>null\<close> and \<open>undefined\<close>; it is
  called as soon as there are two routes.
\<close>

definition priorityFor :: "string \<times> json \<Rightarrow> int" where
  "priorityFor item =
     (let route = fst item; hasPost = (''post'' \<in> set (keys (snd item))) in
      if (route = ''/users'' \<or> route = ''/trainees'') \<and> hasPost then 1
      else if route = ''/sessions'' \<and> hasPost then 2
      else 3)"

definition nullish :: "json \<Rightarrow> bool" where
  "nullish v = (v = JUndefined \<or> v = JNull)"

definition sort_pathList :: "(string \<times> json) list \<Rightarrow> error + (string \<times> json) list" where
  "sort_pathList items =
     (if 2 \<le> length items \<and> list_ex (\<lambda>item. nullish (snd item)) items then Inl TypeError
      else Inr (js_sort (\<lambda>a b. Some (priorityFor a - priorityFor b)) items))"

text \<open>The line of the prioritised passes: always a \<open>POST\<close>, the callback decided by
  \<open>detail.callback\<close>.\<close>

definition post_line :: "string \<Rightarrow> json \<Rightarrow> json \<Rightarrow> string \<Rightarrow> line" where
  "post_line route detail exampleBody code =
     TestCase \<lparr>t_url = ''POST '' @ route, t_auth = False, t_code = code,
               t_body = Some (or_empty exampleBody),
               t_callback = (if truthy (own_get detail ''callback'')
                             then ExpectFields [''message''] else NoCallback)\<rparr>"

text \<open>
  Pass 1, for one of the routes \<open>/users\<close> and \<open>/trainees\<close>: the \<open>POST\<close> lines in the
  order of the status codes, then the warning when no line was for \<open>409\<close>.
\<close>

definition prioritized_lines ::
  "runtime \<Rightarrow> json \<Rightarrow> (string \<times> json) list \<Rightarrow> string \<Rightarrow> error + line list" where
  "prioritized_lines rt doc pathList prioritizedRoute =
     (case find (\<lambda>item. fst item = prioritizedRoute) pathList of
        None \<Rightarrow> Inr []
      | Some prioritizedItem \<Rightarrow>
          bind_err (get_prop (snd prioritizedItem) ''post'')
            (\<lambda>detail.
               if \<not> truthy detail then Inr []
               else bind_err (request_example rt True doc detail)
                      (\<lambda>exampleBody.
                         let codes = emitted_codes (response_codes detail) in
                         Inr (map (post_line prioritizedRoute detail exampleBody) codes @
                              (if ''409'' \<in> set codes then [] else [WarningLine])))))"

text \<open>Pass 2, \<open>POST /sessions\<close>: the same without the warning.\<close>

definition sessions_lines :: "runtime \<Rightarrow> json \<Rightarrow> (string \<times> json) list \<Rightarrow> error + line list" where
  "sessions_lines rt doc pathList =
     (case find (\<lambda>item. fst item = ''/sessions'') pathList of
        None \<Rightarrow> Inr []
      | Some sessionsItem \<Rightarrow>
          bind_err (get_prop (snd sessionsItem) ''post'')
            (\<lambda>detail.
               if \<not> truthy detail then Inr []
               else bind_err (request_example rt True doc detail)
                      (\<lambda>sessBody.
                         Inr (map (post_line ''/sessions'' detail sessBody)
                                (emitted_codes (response_codes detail))))))"

text \<open>Pass 3: every other (route, method) group, in the order of \<open>pathList\<close>.\<close>

definition skipped :: "string \<Rightarrow> string \<Rightarrow> bool" where
  "skipped route meth =
     ((route \<in> {''/users'', ''/trainees''} \<or> route = ''/sessions'') \<and> toLowerCase meth = ''post'')"

definition route_lines :: "runtime \<Rightarrow> json \<Rightarrow> string \<times> json \<Rightarrow> error + line list" where
  "route_lines rt doc item =
     (if nullish (snd item) then Inl TypeError
      else bind_err (map_err (\<lambda>(meth, detail).
                                if skipped (fst item) meth then Inr []
                                else emit_group rt doc (fst item) meth detail)
                       (entries (snd item)))
             (\<lambda>groups. Inr (concat groups)))"

definition general_lines :: "runtime \<Rightarrow> json \<Rightarrow> (string \<times> json) list \<Rightarrow> error + line list" where
  "general_lines rt doc pathList =
     bind_err (map_err (route_lines rt doc) pathList) (\<lambda>rs. Inr (concat rs))"

text \<open>
  Step 6 of \<open>generateTestFile\<close>: the lines between the import statement (inserted at the
  front afterwards, not modelled) and the end of the file.
\<close>

definition header_lines :: "string option \<Rightarrow> string \<Rightarrow> line list" where
  "header_lines swaggerUiLink bakedBaseUrl =
     (case swaggerUiLink of
        None \<Rightarrow> []
      | Some u \<Rightarrow> if u = [] then [] else [SwaggerUrlLine u]) @
     [BaseUrlLine bakedBaseUrl, BlankLine, CommentLine, UsernameLine, PasswordLine, BlankLine,
      ProbeLine, BlankLine]"

definition test_lines :: "runtime \<Rightarrow> json \<Rightarrow> string option \<Rightarrow> string \<Rightarrow> error + line list" where
  "test_lines rt swaggerDoc swaggerUiLink bakedBaseUrl =
     bind_err (get_prop swaggerDoc ''paths'')
       (\<lambda>p. bind_err (sort_pathList (entries (if truthy p then p else JObj [])))
          (\<lambda>pathList.
             bind_err (prioritized_lines rt swaggerDoc pathList ''/users'')
               (\<lambda>users.
                  bind_err (prioritized_lines rt swaggerDoc pathList ''/trainees'')
                    (\<lambda>trainees.
                       bind_err (sessions_lines rt swaggerDoc pathList)
                         (\<lambda>sessions.
                            bind_err (general_lines rt swaggerDoc pathList)
                              (\<lambda>general.
                                 Inr (header_lines swaggerUiLink bakedBaseUrl @ users @
                                      trainees @ sessions @ general @
                                      [BlankLine, RunLine])))))))"

fun is_test :: "line \<Rightarrow> bool" where
  "is_test (TestCase l) = True"
| "is_test l = False"

text \<open>
  Whether the warning is due for a prioritised route: the route is in \<open>pathList\<close> with a
  \<open>POST\<close> operation whose status codes do not include \<open>409\<close>.
\<close>

definition missing_409 :: "(string \<times> json) list \<Rightarrow> string \<Rightarrow> bool" where
  "missing_409 pathList route =
     (case find (\<lambda>item. fst item = route) pathList of
        None \<Rightarrow> False
      | Some item \<Rightarrow>
          truthy (own_get (snd item) ''post'') \<and>
          ''409'' \<notin> set (response_codes (own_get (snd item) ''post'')))"

text \<open>The status code of a line, when the line is a test.\<close>

fun line_code :: "line \<Rightarrow> string option" where
  "line_code (TestCase l) = Some (t_code l)"
| "line_code ProbeLine = Some ''400''"
| "line_code l = None"

section \<open>The extractor and the emitter as the specification words them\<close>







text \<open>
  The copies of the extraction for the prioritised routes and for \<open>/sessions\<close> read
  \<open>exs[k].value\<close> where the general pass reads \<open>ex?.value\<close>: they are defined when the
  first entry of \<open>examples\<close>, if there is one, is not \<open>null\<close> or \<open>undefined\<close>.
\<close>

definition strict_defined :: "json \<Rightarrow> bool" where
  "strict_defined media =
     (case first_key (get_opt media ''examples'') of
        None \<Rightarrow> True
      | Some k \<Rightarrow> \<not> nullish (own_get (get_opt media ''examples'') k))"

text \<open>
  The Test-Case Emitter of the specification, for a method other than \<open>GET\<close> and
  \<open>DELETE\<close>: the callback by the precedence (a) to (d).
\<close>

definition spec_callback :: "string list \<Rightarrow> json \<Rightarrow> string \<Rightarrow> callback" where
  "spec_callback fieldsWithExamples responseExample code =
     (if 1 < length fieldsWithExamples then ExpectFields fieldsWithExamples
      else if truthy responseExample \<and> typeof_object responseExample \<and>
              keys responseExample \<noteq> []
      then ExpectFields [hd (keys responseExample)]
      else if in_error_range (parseInt code) then ExpectFields [''message'']
      else NoCallback)"

section \<open>Fixtures\<close>

text \<open>
  The concrete inputs on which the theorems below are instantiated. First a runtime
  with the properties that the standard defines for \<open>Object.prototype\<close> and, of those
  of \<open>Array.prototype\<close>, the ones that the fixtures read; the conversion of its own
  values is that of a built-in function.
\<close>

definition object_prototype :: "string \<Rightarrow> json option" where
  "object_prototype =
     map_of [(''constructor'', JFunction ''Object''),
             (''toString'', JFunction ''Object.prototype.toString''),
             (''toLocaleString'', JFunction ''Object.prototype.toLocaleString''),
             (''valueOf'', JFunction ''Object.prototype.valueOf''),
             (''hasOwnProperty'', JFunction ''Object.prototype.hasOwnProperty''),
             (''isPrototypeOf'', JFunction ''Object.prototype.isPrototypeOf''),
             (''propertyIsEnumerable'', JFunction ''Object.prototype.propertyIsEnumerable''),
             (''__defineGetter__'', JFunction ''Object.prototype.__defineGetter__''),
             (''__defineSetter__'', JFunction ''Object.prototype.__defineSetter__''),
             (''__lookupGetter__'', JFunction ''Object.prototype.__lookupGetter__''),
             (''__lookupSetter__'', JFunction ''Object.prototype.__lookupSetter__''),
             (''__proto__'', JNative ''Object.prototype'')]"

definition array_prototype :: "string \<Rightarrow> json option" where
  "array_prototype =
     map_of [(''constructor'', JFunction ''Array''),
             (''toString'', JFunction ''Array.prototype.toString''),
             (''join'', JFunction ''Array.prototype.join''),
             (''valueOf'', JFunction ''Object.prototype.valueOf''),
             (''__proto__'', JNative ''Array.prototype'')]"

definition sample_runtime :: runtime where
  "sample_runtime =
     \<lparr>object_inherits = object_prototype,
      array_inherits = array_prototype,
      native_member = (\<lambda>n p. if n = ''Object.prototype''
                              then (if p = ''__proto__'' then JNull
                                    else inherited object_prototype p)
                              else JUndefined),
      exotic_string = (\<lambda>v. case v of
                              JFunction n \<Rightarrow> Inr (''function '' @ n @ ''() { [native code] }'')
                            | _ \<Rightarrow> Inr ''[object Object]'')\<rparr>"

text \<open>
  Platforms and queued tests: a server that answers every request with a given status
  and the plain text \<open>ok\<close>, and a network on which every \<open>fetch\<close> is rejected.
\<close>

definition answering :: "int \<Rightarrow> unit platform" where
  "answering st =
     \<lparr>globalThis_BASE_URL = Some ''http://localhost:3000'',
      binding_BASE_URL = None,
      new_URL = (\<lambda>path base. Some (base @ path)),
      fetch = (\<lambda>w rq. (Inr \<lparr>rs_status = st, rs_content_type = Some ''text/plain'',
                               rs_json = Inl ''Unexpected token'', rs_text = Inr ''ok''\<rparr>, w))\<rparr>"

definition refusing :: "unit platform" where
  "refusing =
     \<lparr>globalThis_BASE_URL = Some ''http://localhost:3000'',
      binding_BASE_URL = None,
      new_URL = (\<lambda>path base. Some (base @ path)),
      fetch = (\<lambda>w rq. (Inl ''Unable to connect'', w))\<rparr>"

definition profile_test :: QueuedTest where
  "profile_test =
     \<lparr>q_url = ''GET /profile'', q_auth = True, q_expStatus = 200, q_body = JUndefined,
      q_save = None\<rparr>"

definition profile_request :: "(string \<times> string) list \<Rightarrow> http_request" where
  "profile_request hs =
     \<lparr>rq_url = ''http://localhost:3000/profile'', rq_params = [], rq_method = ''GET'',
      rq_headers = hs, rq_payload = NoPayload\<rparr>"

definition token_ctx :: ctx where
  "token_ctx = [''token'' \<mapsto> JStr ''abc'']"

definition components_doc :: json where
  "components_doc =
     JObj [(''components'',
            JObj [(''schemas'',
                   JObj [(''User'', JObj [(''example'', JObj [(''id'', JNum ''7'')])])])])]"

definition id_ctx :: ctx where
  "id_ctx = [''id'' \<mapsto> JStr ''42'']"

definition user_test :: QueuedTest where
  "user_test =
     \<lparr>q_url = ''GET /users/$id'', q_auth = False, q_expStatus = 200, q_body = JUndefined,
      q_save = None\<rparr>"

text \<open>
  A queued test as the generator emits it for a request body and a callback
  \<open>res => { expect_field(res.body, 'message'); }\<close>: the assertion throws unless the
  response body is an object with the field (the error message is shortened here).
\<close>

definition message_assertion :: "ReqResponse \<Rightarrow> ctx \<Rightarrow> error + ctx" where
  "message_assertion res c =
     (if truthy (body res) \<and> typeof_object (body res) \<and> child (body res) ''message'' \<noteq> None
      then Inr c else Inl (Thrown ''FAIL: Expected field message''))"

definition session_test :: QueuedTest where
  "session_test =
     \<lparr>q_url = ''POST /sessions'', q_auth = False, q_expStatus = 200, q_body = JObj [],
      q_save = Some message_assertion\<rparr>"

definition session_request :: http_request where
  "session_request =
     \<lparr>rq_url = ''http://localhost:3000/sessions'', rq_params = [], rq_method = ''POST'',
      rq_headers = [(''content-type'', ''application/json'')],
      rq_payload = JsonPayload (JObj [])\<rparr>"

text \<open>
  Two documents with a \<open>POST /users\<close> operation: one without a response for status
  \<open>409\<close>, and the scenario of the specification with the responses \<open>201\<close>, \<open>409\<close> and
  \<open>500\<close>.
\<close>

definition users_doc :: "string list \<Rightarrow> json" where
  "users_doc codes =
     JObj [(''paths'',
            JObj [(''/users'',
                   JObj [(''post'',
                          JObj [(''responses'', JObj (map (\<lambda>c. (c, JObj [])) codes))])])])]"

definition users_item :: "string list \<Rightarrow> string \<times> json" where
  "users_item codes =
     (''/users'', JObj [(''post'', JObj [(''responses'', JObj (map (\<lambda>c. (c, JObj [])) codes))])])"

definition users_post_line :: "string \<Rightarrow> line" where
  "users_post_line code =
     TestCase \<lparr>t_url = ''POST /users'', t_auth = False, t_code = code, t_body = Some (JObj []),
               t_callback = NoCallback\<rparr>"


text \<open>An operation whose only response, for status \<open>200\<close>, has the given media node.\<close>

definition operation_with :: "json \<Rightarrow> json" where
  "operation_with media =
     JObj [(''responses'',
            JObj [(''200'', JObj [(''content'', JObj [(''application/json'', media)])])])]"



definition two_field_media :: json where
  "two_field_media = JObj [(''example'', JObj [(''id'', JNum ''1''), (''name'', JStr ''x'')])]"

definition item_operation :: json where
  "item_operation =
     JObj [(''requestBody'',
            JObj [(''content'',
                   JObj [(''application/json'',
                          JObj [(''example'', JObj [(''name'', JStr ''x'')])])])]),
           (''responses'', JObj [(''400'', JObj [])])]"


section \<open>Properties of the request helper\<close>

lemma split_on_nonempty: "split_on sep s \<noteq> []"
  by (induction s) (auto split: list.splits)

lemma split_on_no_sep: "sep \<notin> set s \<Longrightarrow> split_on sep s = [s]"
  by (induction s) auto

text \<open>A descriptor without a space has no path: the whole string is the method.\<close>

lemma parse_methodPath_no_space:
  "CHR '' '' \<notin> set methodPath \<Longrightarrow> parse_methodPath methodPath = (methodPath, [])"
  by (simp add: parse_methodPath_def split_on_no_sep piece_def)

lemma split_on_append_sep:
  "sep \<notin> set s \<Longrightarrow> split_on sep (s @ sep # rest) = s # split_on sep rest"
  by (induction s) auto

text \<open>Splitting undoes joining, for pieces that do not contain the separator.\<close>

lemma split_on_join:
  "segs \<noteq> [] \<Longrightarrow> \<forall>s \<in> set segs. sep \<notin> set s \<Longrightarrow>
     split_on sep (join_with [sep] segs) = segs"
proof (induction "[sep]" segs rule: join_with.induct)
  case 1
  then show ?case by simp
next
  case (2 x)
  then show ?case by (simp add: split_on_no_sep)
next
  case (3 x y ys)
  then show ?case by (simp add: split_on_append_sep)
qed

lemma split_on_first:
  "split_on sep s =
     takeWhile (\<lambda>c. c \<noteq> sep) s #
     (case dropWhile (\<lambda>c. c \<noteq> sep) s of [] \<Rightarrow> [] | c # r \<Rightarrow> split_on sep r)"
proof (induction s)
  case Nil
  show ?case by simp
next
  case (Cons a s)
  show ?case
  proof (cases "a = sep")
    case True
    then show ?thesis by simp
  next
    case False
    then show ?thesis by (subst split_on.simps, subst Cons.IH) simp
  qed
qed

text \<open>
  What the descriptor splits into: the method is the text before the first space, the
  path the text between the first space and the second.
\<close>

lemma parse_methodPath_pieces:
  "parse_methodPath methodPath =
     (takeWhile (\<lambda>c. c \<noteq> CHR '' '') methodPath,
      (case dropWhile (\<lambda>c. c \<noteq> CHR '' '') methodPath of
         [] \<Rightarrow> []
       | c # r \<Rightarrow> takeWhile (\<lambda>c. c \<noteq> CHR '' '') r))"
proof (cases "dropWhile (\<lambda>c. c \<noteq> CHR '' '') methodPath")
  case Nil
  then have n: "CHR '' '' \<notin> set methodPath"
    by (auto simp: dropWhile_eq_Nil_conv)
  then have t: "takeWhile (\<lambda>c. c \<noteq> CHR '' '') methodPath = methodPath"
    by (auto simp: takeWhile_eq_all_conv)
  show ?thesis
    unfolding parse_methodPath_no_space [OF n] t Nil by simp
next
  case (Cons c r)
  then show ?thesis
    using split_on_first [of "CHR '' ''" methodPath] split_on_first [of "CHR '' ''" r]
    by (simp add: parse_methodPath_def piece_def)
qed

lemma parse_GET_profile: "parse_methodPath ''GET /profile'' = (''GET'', ''/profile'')"
  by (simp add: parse_methodPath_def piece_def)

lemma lower_Authorization: "toLowerCase ''Authorization'' = ''authorization''"
  by code_simp

lemma valid_name_Authorization: "valid_name ''Authorization''"
  by code_simp

lemma new_Headers_empty: "new_Headers [] = Inr []"
  by (simp add: new_Headers_def)

text \<open>The headers object of a single entry: the name in lower case, the value normalised.\<close>

lemma new_Headers_single:
  "new_Headers [(k, v)] =
     (if valid_name k \<and> valid_value (normalize_value v)
      then Inr [(toLowerCase k, normalize_value v)] else Inl TypeError)"
  by (simp add: new_Headers_def)

lemma req_sent:
  "req pf mp opts w = (r, w', sent) \<Longrightarrow>
     sent = (case build_request pf mp opts of Inl early \<Rightarrow> [] | Inr rq \<Rightarrow> [rq])"
  by (auto simp: req_def split: sum.splits prod.splits)

lemma build_request_headers:
  "build_request pf mp opts = Inr rq \<Longrightarrow>
     \<exists>h. new_Headers (o_headers opts) = Inr h \<and>
         set (rq_headers rq) \<subseteq> set h \<union> {(''content-type'', ''application/json'')} \<and>
         set h \<subseteq> set (rq_headers rq)"
  unfolding build_request_def Let_def
  by (auto split: prod.splits option.splits sum.splits if_splits)

lemma build_profile_request:
  "new_Headers hs = Inr h \<Longrightarrow>
   build_request (answering st) ''GET /profile''
     \<lparr>o_body = JNull, o_headers = hs, o_params = []\<rparr> =
   Inr (profile_request h)"
  by (simp add: build_request_def parse_GET_profile answering_def base_url_of_def
        profile_request_def)

lemma build_profile_request_refusing:
  "new_Headers hs = Inr h \<Longrightarrow>
   build_request refusing ''GET /profile''
     \<lparr>o_body = JNull, o_headers = hs, o_params = []\<rparr> =
   Inr (profile_request h)"
  by (simp add: build_request_def parse_GET_profile refusing_def base_url_of_def
        profile_request_def)

text \<open>
  Claim C10. A descriptor that does not split on a space into a non-empty method and a
  non-empty path (the descriptor \<open>GET\<close> without a path, the empty string) makes \<open>req\<close>
  return, without throwing, the result with status \<open>0\<close> and the body
  \<open>Invalid methodPath: \<close> followed by the descriptor; the state of the world is
  unchanged and no request was dispatched.
\<close>

theorem req_invalid_methodPath:
  assumes "fst (parse_methodPath methodPath) = [] \<or> snd (parse_methodPath methodPath) = []"
  shows "req pf methodPath opts w =
           (Inr \<lparr>status = 0, body = JStr (''Invalid methodPath: '' @ methodPath)\<rparr>, w, [])"
  using assms by (auto simp: req_def build_request_def split: prod.splits)

theorem req_invalid_methodPath_witness:
  "req refusing ''GET'' \<lparr>o_body = JNull, o_headers = [], o_params = []\<rparr> () =
     (Inr \<lparr>status = 0, body = JStr ''Invalid methodPath: GET''\<rparr>, (), [])
   \<and> req refusing [] \<lparr>o_body = JNull, o_headers = [], o_params = []\<rparr> () =
     (Inr \<lparr>status = 0, body = JStr ''Invalid methodPath: ''\<rparr>, (), [])"
  using req_invalid_methodPath [of "''GET''" refusing _ "()"]
        req_invalid_methodPath [of "[]" refusing _ "()"]
  by (simp add: parse_methodPath_def piece_def)

section \<open>Properties of the preparation of a queued test\<close>

lemma interpolate_no_dollar: "CHR ''$'' \<notin> set s \<Longrightarrow> interpolate rt c s = Inr s"
  by (induction s) (auto simp: interpolate.simps)

lemma no_token_inherited: "inherited object_prototype ''token'' = JUndefined"
  by (simp add: inherited_def object_prototype_def)

lemma token_unset: "\<not> truthy (ctx_get sample_runtime Map.empty ''token'')"
  by (simp add: ctx_get_def sample_runtime_def no_token_inherited)

lemma token_set: "ctx_get rt token_ctx ''token'' = JStr ''abc''"
  by (simp add: ctx_get_def token_ctx_def)

lemma prepare_profile_empty:
  "prepare sample_runtime profile_test Map.empty =
     Inr (''GET /profile'', \<lparr>o_body = JNull, o_headers = [], o_params = []\<rparr>)"
  using token_unset
  by (simp add: prepare_def profile_test_def interpolate_no_dollar auth_headers_def)

lemma prepare_profile_token:
  "prepare rt profile_test token_ctx =
     Inr (''GET /profile'',
          \<lparr>o_body = JNull, o_headers = [(''Authorization'', ''Bearer abc'')], o_params = []\<rparr>)"
  by (simp add: prepare_def profile_test_def interpolate_no_dollar auth_headers_def token_set)

text \<open>
  Claim C8. When \<open>req\<close> has built its request and \<open>fetch\<close> rejects (a transport-level
  failure), \<open>req\<close> does not throw: it returns status \<open>0\<close> with the error message as
  body. A queued test whose request fails this way is therefore judged by the ordinary
  comparison of that status with the expected one: a mismatch unless status \<open>0\<close> was
  expected.
\<close>

theorem req_transport_failure:
  assumes "build_request pf methodPath opts = Inr rq"
      and "fetch pf w rq = (Inl msg, w')"
  shows "req pf methodPath opts w = (Inr \<lparr>status = 0, body = JStr msg\<rparr>, w', [rq])
         \<and> (\<forall>rt t c. prepare rt t c = Inr (methodPath, opts) \<longrightarrow>
                fst (run_case rt pf t c w) =
                  (if q_expStatus t = 0
                   then (case q_save t of
                           None \<Rightarrow> Passed \<lparr>status = 0, body = JStr msg\<rparr> c
                         | Some save \<Rightarrow>
                             (case save \<lparr>status = 0, body = JStr msg\<rparr> c of
                                Inl e \<Rightarrow> CallbackThrew \<lparr>status = 0, body = JStr msg\<rparr> e
                              | Inr c' \<Rightarrow> Passed \<lparr>status = 0, body = JStr msg\<rparr> c'))
                   else Mismatch \<lparr>status = 0, body = JStr msg\<rparr>))"
proof -
  have r: "req pf methodPath opts w = (Inr \<lparr>status = 0, body = JStr msg\<rparr>, w', [rq])"
    using assms by (simp add: req_def)
  then show ?thesis
    by (auto simp: run_case_def judge_def split: option.splits sum.splits)
qed

theorem req_transport_failure_witness:
  "build_request refusing ''GET /profile'' \<lparr>o_body = JNull, o_headers = [], o_params = []\<rparr> =
     Inr (profile_request [])
   \<and> fetch refusing () (profile_request []) = (Inl ''Unable to connect'', ())
   \<and> req refusing ''GET /profile'' \<lparr>o_body = JNull, o_headers = [], o_params = []\<rparr> () =
     (Inr \<lparr>status = 0, body = JStr ''Unable to connect''\<rparr>, (), [profile_request []])
   \<and> prepare sample_runtime profile_test Map.empty =
     Inr (''GET /profile'', \<lparr>o_body = JNull, o_headers = [], o_params = []\<rparr>)
   \<and> fst (run_case sample_runtime refusing profile_test Map.empty ()) =
     Mismatch \<lparr>status = 0, body = JStr ''Unable to connect''\<rparr>"
proof -
  have b: "build_request refusing ''GET /profile''
             \<lparr>o_body = JNull, o_headers = [], o_params = []\<rparr> = Inr (profile_request [])"
    using build_profile_request_refusing [OF new_Headers_empty] .
  have f: "fetch refusing () (profile_request []) = (Inl ''Unable to connect'', ())"
    by (simp add: refusing_def)
  have p: "prepare sample_runtime profile_test Map.empty =
             Inr (''GET /profile'', \<lparr>o_body = JNull, o_headers = [], o_params = []\<rparr>)"
    by (simp add: prepare_profile_empty)
  from req_transport_failure [OF b f] b f p show ?thesis
    by (simp add: profile_test_def)
qed

section \<open>Properties of the queued-test runner\<close>

lemma run_case_sent:
  "run_case rt pf t c w = (e, w', sent) \<Longrightarrow>
     sent = (case prepare rt t c of
               Inl err \<Rightarrow> []
             | Inr (path, opts) \<Rightarrow>
                 (case build_request pf path opts of Inl early \<Rightarrow> [] | Inr rq \<Rightarrow> [rq]))"
  unfolding run_case_def
  by (auto split: prod.splits sum.splits dest!: req_sent)

lemma run_case_threw:
  "prepare rt t c = Inl err \<Longrightarrow> run_case rt pf t c w = (Threw err, w, [])"
  by (simp add: run_case_def)

lemma prepare_headers:
  "prepare rt t c = Inr (path, opts) \<Longrightarrow> auth_headers rt (q_auth t) c = Inr (o_headers opts)"
  by (auto simp: prepare_def split: sum.splits)

lemma prepare_unauthenticated:
  "\<not> truthy (ctx_get rt c ''token'') \<Longrightarrow> prepare rt t c = prepare rt (t\<lparr>q_auth := False\<rparr>) c"
  by (auto simp: prepare_def auth_headers_def split: sum.splits)

lemma judge_unauthenticated: "judge (t\<lparr>q_auth := False\<rparr>) c res = judge t c res"
  by (simp add: judge_def)

lemma run_profile:
  "prepare rt profile_test c =
     Inr (''GET /profile'', \<lparr>o_body = JNull, o_headers = hs, o_params = []\<rparr>) \<Longrightarrow>
   new_Headers hs = Inr h \<Longrightarrow>
   run_case rt (answering 200) profile_test c () =
     (Passed \<lparr>status = 200, body = JStr ''ok''\<rparr> c, (), [profile_request h])"
  by (simp add: run_case_def req_def build_profile_request)
     (simp add: answering_def read_response_def startsWith_def judge_def profile_test_def)

lemma bearer_abc:
  "normalize_value ''Bearer abc'' = ''Bearer abc''" "valid_value ''Bearer abc''"
  by code_simp+

text \<open>
  Claim C5. For a queued test with \<open>auth = true\<close>, the headers that the runner hands to
  \<open>req\<close> hold an \<open>Authorization\<close> header exactly when \<open>ctx.token\<close> is set at that moment,
  and every request the test dispatches carries the header exactly then. ``Set'' is the
  test the code applies: \<open>ctx.token\<close> holds a truthy value. The header is \<open>Bearer\<close>, a
  space and the string form of the token, as the \<open>Headers\<close> object stores it (without
  white space at its ends). When the token is not set, the test runs exactly as the
  same test with \<open>auth = false\<close> would: the request goes out without the header and the
  outcome is decided by the status comparison alone. A token without a string form
  makes the runner throw before any request is dispatched, and no request is dispatched
  either when the header value is one that \<open>Headers\<close> refuses (a line break inside).
\<close>

theorem auth_header_iff_token:
  assumes "q_auth t"
      and "run_case rt pf t c w = (e, w', sent)"
  shows "(\<forall>path opts. prepare rt t c = Inr (path, opts) \<longrightarrow>
            (if truthy (ctx_get rt c ''token'')
             then \<exists>s. to_string rt (ctx_get rt c ''token'') = Inr s \<and>
                      o_headers opts = [(''Authorization'', ''Bearer '' @ s)]
             else o_headers opts = []))
         \<and> (\<forall>rq \<in> set sent.
            (headers_has (rq_headers rq) ''Authorization'' \<longleftrightarrow> truthy (ctx_get rt c ''token'')) \<and>
            (truthy (ctx_get rt c ''token'') \<longrightarrow>
               (\<exists>s. to_string rt (ctx_get rt c ''token'') = Inr s \<and>
                    (''authorization'', normalize_value (''Bearer '' @ s)) \<in> set (rq_headers rq))))
         \<and> (\<not> truthy (ctx_get rt c ''token'') \<longrightarrow>
               run_case rt pf t c w = run_case rt pf (t\<lparr>q_auth := False\<rparr>) c w)
         \<and> (\<forall>err. truthy (ctx_get rt c ''token'') \<and>
                  to_string rt (ctx_get rt c ''token'') = Inl err \<longrightarrow>
                  sent = [] \<and> (\<exists>err'. e = Threw err'))
         \<and> (\<forall>s. truthy (ctx_get rt c ''token'') \<and>
                to_string rt (ctx_get rt c ''token'') = Inr s \<and>
                \<not> valid_value (normalize_value (''Bearer '' @ s)) \<longrightarrow>
                sent = [])"
proof -
  let ?tok = "ctx_get rt c ''token''"
  have handed: "if truthy ?tok
                then \<exists>s. to_string rt ?tok = Inr s \<and>
                         o_headers opts = [(''Authorization'', ''Bearer '' @ s)]
                else o_headers opts = []"
    if "prepare rt t c = Inr (path, opts)" for path opts
    using prepare_headers [OF that] assms(1)
    by (auto simp: auth_headers_def split: sum.splits if_splits)
  have second: "\<not> truthy ?tok \<longrightarrow>
                  run_case rt pf t c w = run_case rt pf (t\<lparr>q_auth := False\<rparr>) c w"
    using prepare_unauthenticated [of rt c t]
    by (auto simp: run_case_def judge_unauthenticated split: sum.splits prod.splits)
  have first: "headers_has (rq_headers rq) ''Authorization'' = truthy ?tok \<and>
            (truthy ?tok \<longrightarrow>
               (\<exists>s. to_string rt ?tok = Inr s \<and>
                    (''authorization'', normalize_value (''Bearer '' @ s)) \<in> set (rq_headers rq)))"
    if "rq \<in> set sent" for rq
  proof -
    from run_case_sent [OF assms(2)] that
    obtain path opts where p: "prepare rt t c = Inr (path, opts)"
      and b: "build_request pf path opts = Inr rq"
      by (auto split: sum.splits prod.splits)
    from build_request_headers [OF b]
    obtain h where h: "new_Headers (o_headers opts) = Inr h"
      and sub: "set (rq_headers rq) \<subseteq> set h \<union> {(''content-type'', ''application/json'')}"
      and sup: "set h \<subseteq> set (rq_headers rq)"
      by blast
    show ?thesis
    proof (cases "truthy ?tok")
      case True
      with handed [OF p] obtain s where s: "to_string rt ?tok = Inr s"
        and o: "o_headers opts = [(''Authorization'', ''Bearer '' @ s)]"
        by auto
      from h o have "h = [(''authorization'', normalize_value (''Bearer '' @ s))]"
        by (simp add: new_Headers_single lower_Authorization split: if_splits)
      with sup s True show ?thesis
        by (force simp: headers_has_def lower_Authorization)
    next
      case False
      with handed [OF p] have "o_headers opts = []" by simp
      with h have "h = []" by (simp add: new_Headers_empty)
      with sub False show ?thesis
        by (auto simp: headers_has_def lower_Authorization)
    qed
  qed
  have third: "sent = [] \<and> (\<exists>err'. e = Threw err')"
    if "truthy ?tok" and "to_string rt ?tok = Inl err" for err
  proof -
    from that assms(1) have "\<exists>err'. prepare rt t c = Inl err'"
      by (auto simp: prepare_def auth_headers_def split: sum.splits)
    then obtain err' where "prepare rt t c = Inl err'" ..
    from run_case_threw [OF this, of pf w] assms(2) show ?thesis by simp
  qed
  have fourth: "sent = []"
    if tk: "truthy ?tok" and s: "to_string rt ?tok = Inr s"
      and bad: "\<not> valid_value (normalize_value (''Bearer '' @ s))" for s
  proof (rule ccontr)
    assume "sent \<noteq> []"
    then obtain rq where "rq \<in> set sent" by (cases sent) auto
    with run_case_sent [OF assms(2)]
    obtain path opts where p: "prepare rt t c = Inr (path, opts)"
      and b: "build_request pf path opts = Inr rq"
      by (auto split: sum.splits prod.splits)
    from handed [OF p] tk s have "o_headers opts = [(''Authorization'', ''Bearer '' @ s)]"
      by simp
    with build_request_headers [OF b] bad show False
      by (auto simp: new_Headers_single)
  qed
  from handed first second third fourth show ?thesis by blast
qed

theorem auth_header_iff_token_witness:
  "q_auth profile_test \<and>
   run_case sample_runtime (answering 200) profile_test Map.empty () =
     (Passed \<lparr>status = 200, body = JStr ''ok''\<rparr> Map.empty, (), [profile_request []]) \<and>
   \<not> truthy (ctx_get sample_runtime Map.empty ''token'') \<and>
   \<not> headers_has (rq_headers (profile_request [])) ''Authorization'' \<and>
   run_case sample_runtime (answering 200) profile_test Map.empty () =
     run_case sample_runtime (answering 200) (profile_test\<lparr>q_auth := False\<rparr>) Map.empty () \<and>
   run_case sample_runtime (answering 200) profile_test token_ctx () =
     (Passed \<lparr>status = 200, body = JStr ''ok''\<rparr> token_ctx, (),
      [profile_request [(''authorization'', ''Bearer abc'')]]) \<and>
   truthy (ctx_get sample_runtime token_ctx ''token'') \<and>
   headers_has (rq_headers (profile_request [(''authorization'', ''Bearer abc'')]))
     ''Authorization''"
proof -
  have a: "q_auth profile_test" by (simp add: profile_test_def)
  note n = token_unset
  have y: "truthy (ctx_get sample_runtime token_ctx ''token'')" by (simp add: token_set)
  have r0: "run_case sample_runtime (answering 200) profile_test Map.empty () =
     (Passed \<lparr>status = 200, body = JStr ''ok''\<rparr> Map.empty, (), [profile_request []])"
    using run_profile [OF prepare_profile_empty new_Headers_empty] .
  have h1: "new_Headers [(''Authorization'', ''Bearer abc'')] =
              Inr [(''authorization'', ''Bearer abc'')]"
    by (simp add: new_Headers_single valid_name_Authorization lower_Authorization bearer_abc)
  have r1: "run_case sample_runtime (answering 200) profile_test token_ctx () =
     (Passed \<lparr>status = 200, body = JStr ''ok''\<rparr> token_ctx, (),
      [profile_request [(''authorization'', ''Bearer abc'')]])"
    using run_profile [OF prepare_profile_token h1] .
  from auth_header_iff_token [OF a r0] auth_header_iff_token [OF a r1] a n y r0 r1
  show ?thesis by simp
qed

section \<open>Properties of the reference resolver\<close>

lemma resolveRef_loop_undefined: "resolveRef_loop rt JUndefined ps = JUndefined"
  by (cases ps) auto

text \<open>An own property hides whatever the prototypes hold under its name.\<close>

lemma get_member_child:
  "child d p = Some v \<Longrightarrow> get_member rt d p = v \<and> truthy d \<and> typeof_object d"
  by (cases d) (auto split: option.splits if_splits)

lemma subtree_or_missing: "(subtree_at d ps = None) = (first_missing d ps \<noteq> None)"
  by (induction ps arbitrary: d) (auto split: option.splits)

text \<open>The loop of the code follows the walk of the specification while the segments exist.\<close>

lemma resolveRef_loop_subtree:
  "subtree_at d ps = Some v \<Longrightarrow> resolveRef_loop rt d ps = v"
proof (induction ps arbitrary: d)
  case Nil
  then show ?case by simp
next
  case (Cons p ps)
  then obtain u where u: "child d p = Some u" and s: "subtree_at u ps = Some v"
    by (auto split: option.splits)
  from get_member_child [OF u, of rt] Cons.IH [OF s] show ?case by simp
qed

text \<open>
  At the first missing segment the loop reads the property all the same; the result is
  \<open>undefined\<close> when the read finds nothing, that is, when the node inherits no property
  of that name.
\<close>

lemma resolveRef_loop_missing:
  "first_missing d ps = Some (n, p) \<Longrightarrow> get_member rt n p = JUndefined \<Longrightarrow>
     resolveRef_loop rt d ps = JUndefined"
proof (induction ps arbitrary: d)
  case Nil
  then show ?case by simp
next
  case (Cons q qs)
  show ?case
  proof (cases "child d q")
    case None
    with Cons.prems have "n = d" "p = q" by auto
    with Cons.prems(2) show ?thesis by (simp add: resolveRef_loop_undefined)
  next
    case (Some u)
    with Cons.prems have "first_missing u qs = Some (n, p)" by simp
    from Cons.IH [OF this Cons.prems(2)] get_member_child [OF Some, of rt]
    show ?thesis by simp
  qed
qed

text \<open>
  The loop continues with an inherited value: where the first missing segment names a
  property that the node inherits, the walk goes on from the inherited value.
\<close>

lemma resolveRef_loop_inherited:
  "child d p = None \<Longrightarrow> truthy d \<Longrightarrow> typeof_object d \<Longrightarrow>
     resolveRef_loop rt d (p # ps) = resolveRef_loop rt (get_member rt d p) ps"
  by simp

lemma resolveRef_split:
  assumes "segs \<noteq> []" and "\<forall>s \<in> set segs. CHR ''/'' \<notin> set s"
  shows "resolveRef rt doc (''#/'' @ join_with ''/'' segs) = resolveRef_loop rt doc segs"
  using split_on_join [OF assms] by (simp add: resolveRef_def startsWith_def)

text \<open>
  Where \<open>resolveRef\<close> agrees with the resolver of the specification: on every reference
  that does not start with \<open>#/\<close>, on every walk whose segments all exist, and on every
  walk whose first missing segment is not the name of a property that the node
  inherits. The function has no error result.
\<close>

lemma resolveRef_own_walk:
  "(\<not> startsWith ref ''#/'' \<longrightarrow> resolveRef rt doc ref = JUndefined)
   \<and> (\<forall>v. startsWith ref ''#/'' \<and> subtree_at doc (split_on CHR ''/'' (drop 2 ref)) = Some v \<longrightarrow>
            resolveRef rt doc ref = v)
   \<and> (\<forall>n p. startsWith ref ''#/'' \<and>
              first_missing doc (split_on CHR ''/'' (drop 2 ref)) = Some (n, p) \<and>
              get_member rt n p = JUndefined \<longrightarrow>
              resolveRef rt doc ref = JUndefined)
   \<and> (\<forall>segs v. segs \<noteq> [] \<and> (\<forall>s \<in> set segs. CHR ''/'' \<notin> set s) \<and>
                subtree_at doc segs = Some v \<longrightarrow>
                resolveRef rt doc (''#/'' @ join_with ''/'' segs) = v)"
  using resolveRef_loop_subtree [of doc _ _ rt] resolveRef_loop_missing [of doc _ _ _ rt]
        resolveRef_split [of _ rt doc]
  by (simp add: resolveRef_def)

lemma resolveRef_own_walk_example:
  "resolveRef sample_runtime components_doc ''#/components/schemas/User'' =
     JObj [(''example'', JObj [(''id'', JNum ''7'')])]
   \<and> resolveRef sample_runtime components_doc ''#/components/schemas/Pet'' = JUndefined
   \<and> resolveRef sample_runtime components_doc ''components/schemas/User'' = JUndefined"
  by (simp add: resolveRef_def startsWith_def components_doc_def sample_runtime_def
        inherited_def object_prototype_def)

lemma resolveRef_constructor:
  "map_of kvs ''constructor'' = None \<Longrightarrow>
     resolveRef rt (JObj kvs) ''#/constructor'' = inherited (object_inherits rt) ''constructor''"
  by (simp add: resolveRef_def startsWith_def)

text \<open>
  Claim C6. The claim says that \<open>resolveRef\<close> returns \<open>undefined\<close> when a segment along
  the walk is missing. The code reads \<open>cur[p]\<close> without asking whether \<open>p\<close> is a property
  of the node itself, so a missing segment that names an inherited property is
  followed: in the document \<open>components_doc\<close>, which has the single entry \<open>components\<close>,
  the reference \<open>#/constructor\<close> has the one segment \<open>constructor\<close>, the segment is
  missing, the resolver of the specification gives \<open>undefined\<close>, and \<open>resolveRef\<close>
  returns the function \<open>Object\<close>, a truthy value.
\<close>

theorem resolveRef_inherited_segment:
  "split_on CHR ''/'' (drop 2 ''#/constructor'') = [''constructor'']
   \<and> subtree_at components_doc [''constructor''] = None
   \<and> spec_resolve components_doc ''#/constructor'' = JUndefined
   \<and> resolveRef sample_runtime components_doc ''#/constructor'' = JFunction ''Object''
   \<and> truthy (resolveRef sample_runtime components_doc ''#/constructor'')"
  by (simp add: resolveRef_def spec_resolve_def startsWith_def components_doc_def
        sample_runtime_def inherited_def object_prototype_def)

section \<open>Placeholder substitution\<close>

lemma takeWhile_token:
  "list_all P name \<Longrightarrow> rest = [] \<or> \<not> P (hd rest) \<Longrightarrow> takeWhile P (name @ rest) = name"
  by (cases rest) (auto simp: list_all_iff takeWhile_append2)

lemma dropWhile_token:
  "list_all P name \<Longrightarrow> rest = [] \<or> \<not> P (hd rest) \<Longrightarrow> dropWhile P (name @ rest) = rest"
  by (cases rest) (auto simp: list_all_iff dropWhile_append2)

lemma takeWhile_stop: "\<not> P y \<Longrightarrow> takeWhile P (xs @ y # ys) = takeWhile P xs"
  by (induction xs) auto

lemma dropWhile_stop: "\<not> P y \<Longrightarrow> dropWhile P (xs @ y # ys) = dropWhile P xs @ y # ys"
  by (induction xs) auto

lemma dollar_no_word: "\<not> is_word CHR ''$''"
  by (simp add: is_word_def is_alpha_def is_digit_def)

lemma takeWhile_word_dollar: "takeWhile is_word (xs @ CHR ''$'' # s) = takeWhile is_word xs"
  using dollar_no_word by (rule takeWhile_stop)

lemma dropWhile_word_dollar:
  "dropWhile is_word (xs @ CHR ''$'' # s) = dropWhile is_word xs @ CHR ''$'' # s"
  using dollar_no_word by (rule dropWhile_stop)

lemma dollar_no_alpha: "\<not> is_alpha CHR ''$''"
  by (simp add: is_alpha_def)

lemma interpolate_at_token:
  assumes "name \<noteq> []" "is_alpha (hd name)" "list_all is_word name"
          "rest = [] \<or> \<not> is_word (hd rest)"
  shows "interpolate rt c (CHR ''$'' # name @ rest) =
           (case to_string rt (ctx_get rt c name) of
              Inl e \<Rightarrow> Inl e
            | Inr s \<Rightarrow>
                (case interpolate rt c rest of
                   Inl e \<Rightarrow> Inl e
                 | Inr r \<Rightarrow> Inr (s @ r)))"
  using assms by (simp add: interpolate.simps takeWhile_token dropWhile_token cong: sum.case_cong)

text \<open>
  A dollar sign ends every token before it: the substitution of a descriptor is the
  substitution of the text before a dollar sign followed by the substitution of the
  text from the dollar sign on.
\<close>

lemma interpolate_append_dollar:
  "interpolate rt c (p @ CHR ''$'' # s) =
     (case interpolate rt c p of
        Inl e \<Rightarrow> Inl e
      | Inr p' \<Rightarrow>
          (case interpolate rt c (CHR ''$'' # s) of
             Inl e \<Rightarrow> Inl e
           | Inr r \<Rightarrow> Inr (p' @ r)))"
proof (induction rt c p rule: interpolate.induct)
  case (1 rt c)
  show ?case by (simp add: interpolate.simps(1) split: sum.splits)
next
  case (2 rt c x xs)
  show ?case
  proof (cases "x = CHR ''$'' \<and> xs \<noteq> [] \<and> is_alpha (hd xs)")
    case True
    then have tok: "x = CHR ''$''" "xs \<noteq> []" "is_alpha (hd xs)" by auto
    have l: "interpolate rt c ((x # xs) @ CHR ''$'' # s) =
               (case to_string rt (ctx_get rt c (takeWhile is_word xs)) of
                  Inl e \<Rightarrow> Inl e
                | Inr v \<Rightarrow>
                    (case interpolate rt c (dropWhile is_word xs @ CHR ''$'' # s) of
                       Inl e \<Rightarrow> Inl e
                     | Inr r \<Rightarrow> Inr (v @ r)))"
      using tok
      by (simp only: append_Cons, subst interpolate.simps(2))
         (simp add: takeWhile_word_dollar dropWhile_word_dollar cong: sum.case_cong)
    have r: "interpolate rt c (x # xs) =
               (case to_string rt (ctx_get rt c (takeWhile is_word xs)) of
                  Inl e \<Rightarrow> Inl e
                | Inr v \<Rightarrow>
                    (case interpolate rt c (dropWhile is_word xs) of
                       Inl e \<Rightarrow> Inl e
                     | Inr r \<Rightarrow> Inr (v @ r)))"
      using tok by (subst interpolate.simps(2)) simp
    show ?thesis
      unfolding l r using "2.IH"(1) [OF True]
      by (simp split: sum.splits)
  next
    case False
    have same: "(x = CHR ''$'' \<and> xs @ CHR ''$'' # s \<noteq> [] \<and> is_alpha (hd (xs @ CHR ''$'' # s)))
                = False"
      using False by (cases xs) (auto simp: dollar_no_alpha)
    have l: "interpolate rt c ((x # xs) @ CHR ''$'' # s) =
               (case interpolate rt c (xs @ CHR ''$'' # s) of
                  Inl e \<Rightarrow> Inl e
                | Inr r \<Rightarrow> Inr (x # r))"
      by (simp only: append_Cons, subst interpolate.simps(2)) (simp only: same if_False)
    have r: "interpolate rt c (x # xs) =
               (case interpolate rt c xs of
                  Inl e \<Rightarrow> Inl e
                | Inr r \<Rightarrow> Inr (x # r))"
      by (subst interpolate.simps(2)) (simp only: False if_False)
    show ?thesis
      unfolding l r using "2.IH"(2) [OF False]
      by (simp split: sum.splits)
  qed
qed

lemma parse_GET_users_undefined:
  "parse_methodPath ''GET /users/undefined'' = (''GET'', ''/users/undefined'')"
  by (simp add: parse_methodPath_def piece_def)

lemma no_id_inherited: "inherited object_prototype ''id'' = JUndefined"
  by (simp add: inherited_def object_prototype_def)

lemma id_unset: "ctx_get sample_runtime Map.empty ''id'' = JUndefined"
  by (simp add: ctx_get_def sample_runtime_def no_id_inherited)

lemma token_id: "''id'' \<noteq> []" "is_alpha (hd ''id'')" "list_all is_word ''id''"
  by (simp_all add: is_word_def is_alpha_def)

lemma interpolate_users_id:
  "interpolate rt c ''GET /users/$id'' =
     (case to_string rt (ctx_get rt c ''id'') of
        Inl e \<Rightarrow> Inl e
      | Inr s \<Rightarrow> Inr (''GET /users/'' @ s))"
proof -
  have "interpolate rt c ''$id'' =
          (case to_string rt (ctx_get rt c ''id'') of Inl e \<Rightarrow> Inl e | Inr s \<Rightarrow> Inr s)"
    using interpolate_at_token [of "''id''" "[]" rt c, OF token_id]
    by (simp add: interpolate.simps(1) cong: sum.case_cong)
  with interpolate_append_dollar [of rt c "''GET /users/''" "''id''"] show ?thesis
    by (simp add: interpolate_no_dollar split: sum.splits)
qed

text \<open>
  Claim C1, as stated, fails: a token whose name is not in the context does not remain
  in the descriptor. The replacer returns \<open>ctx[k]\<close>, which is \<open>undefined\<close>, and
  \<open>replace\<close> inserts its string form. The descriptor \<open>GET /users/$id\<close> with no \<open>id\<close>
  in the context becomes \<open>GET /users/undefined\<close>, and that is the path requested.
\<close>

theorem unresolved_token_counterexample:
  "interpolate sample_runtime Map.empty ''GET /users/$id'' = Inr ''GET /users/undefined''
   \<and> interpolate sample_runtime Map.empty ''GET /users/$id'' \<noteq> Inr ''GET /users/$id''
   \<and> map rq_url (snd (snd (run_case sample_runtime (answering 200) user_test Map.empty ()))) =
        [''http://localhost:3000/users/undefined'']"
proof -
  have i: "interpolate sample_runtime Map.empty ''GET /users/$id'' = Inr ''GET /users/undefined''"
    by (simp add: interpolate_users_id id_unset)
  have "build_request (answering 200) ''GET /users/undefined''
          \<lparr>o_body = JNull, o_headers = [], o_params = []\<rparr> =
        Inr \<lparr>rq_url = ''http://localhost:3000/users/undefined'', rq_params = [],
             rq_method = ''GET'', rq_headers = [], rq_payload = NoPayload\<rparr>"
    by (simp add: build_request_def parse_GET_users_undefined answering_def base_url_of_def
          new_Headers_empty)
  then have "map rq_url (snd (snd (run_case sample_runtime (answering 200) user_test
                                     Map.empty ()))) =
               [''http://localhost:3000/users/undefined'']"
    by (simp add: run_case_def prepare_def user_test_def i auth_headers_def req_def)
       (simp add: answering_def read_response_def startsWith_def)
  with i show ?thesis by simp
qed

text \<open>
  Claim C1, amended. Every token in a queued test's descriptor (a dollar sign, a letter
  and the word characters that follow), wherever it stands, is replaced, when the test
  is executed, by the string form of \<open>ctx[name]\<close>; the text before the token and the
  text after it are substituted in the same way. A token whose name is in the context is
  replaced by the string form of the value stored there. A token whose name is not in
  the context, and is not the name of a property that the context object inherits, is
  replaced by the text \<open>undefined\<close>, and this raises no error. The one error that the
  substitution can raise is that of a value without a string form. The request of the
  test is built from the descriptor so substituted, with the context the test is
  executed in.
\<close>

theorem interpolate_token:
  assumes "name \<noteq> []" and "is_alpha (hd name)" and "list_all is_word name"
      and "rest = [] \<or> \<not> is_word (hd rest)"
  shows "interpolate rt c (p @ CHR ''$'' # name @ rest) =
           (case interpolate rt c p of
              Inl e \<Rightarrow> Inl e
            | Inr p' \<Rightarrow>
                (case to_string rt (ctx_get rt c name) of
                   Inl e \<Rightarrow> Inl e
                 | Inr s \<Rightarrow>
                     (case interpolate rt c rest of
                        Inl e \<Rightarrow> Inl e
                      | Inr r \<Rightarrow> Inr (p' @ s @ r))))
         \<and> (\<forall>v s p' r. c name = Some v \<and> to_string rt v = Inr s \<and>
                interpolate rt c p = Inr p' \<and> interpolate rt c rest = Inr r \<longrightarrow>
                interpolate rt c (p @ CHR ''$'' # name @ rest) = Inr (p' @ s @ r))
         \<and> (\<forall>p' r. c name = None \<and> object_inherits rt name = None \<and>
                interpolate rt c p = Inr p' \<and> interpolate rt c rest = Inr r \<longrightarrow>
                interpolate rt c (p @ CHR ''$'' # name @ rest) = Inr (p' @ ''undefined'' @ r))
         \<and> (CHR ''$'' \<notin> set p \<longrightarrow> interpolate rt c p = Inr p)
         \<and> (\<forall>pf t w e w' sent.
               q_url t = p @ CHR ''$'' # name @ rest \<and> run_case rt pf t c w = (e, w', sent) \<longrightarrow>
               (case interpolate rt c (p @ CHR ''$'' # name @ rest) of
                  Inl err \<Rightarrow> e = Threw err \<and> sent = []
                | Inr path \<Rightarrow>
                    (case auth_headers rt (q_auth t) c of
                       Inl err \<Rightarrow> e = Threw err \<and> sent = []
                     | Inr headers \<Rightarrow>
                         sent = (case build_request pf path
                                        \<lparr>o_body = (if q_body t = JUndefined then JNull
                                                   else q_body t),
                                         o_headers = headers, o_params = []\<rparr> of
                                   Inl early \<Rightarrow> [] | Inr rq \<Rightarrow> [rq]))))"
proof -
  have eq: "interpolate rt c (p @ CHR ''$'' # name @ rest) =
           (case interpolate rt c p of
              Inl e \<Rightarrow> Inl e
            | Inr p' \<Rightarrow>
                (case to_string rt (ctx_get rt c name) of
                   Inl e \<Rightarrow> Inl e
                 | Inr s \<Rightarrow>
                     (case interpolate rt c rest of
                        Inl e \<Rightarrow> Inl e
                      | Inr r \<Rightarrow> Inr (p' @ s @ r))))"
    unfolding interpolate_append_dollar [of rt c p "name @ rest"]
      interpolate_at_token [OF assms, of rt c]
    by (simp split: sum.splits)
  have present: "interpolate rt c (p @ CHR ''$'' # name @ rest) = Inr (p' @ s @ r)"
    if "c name = Some v" "to_string rt v = Inr s" "interpolate rt c p = Inr p'"
       "interpolate rt c rest = Inr r" for v s p' r
    unfolding eq using that by (simp add: ctx_get_def)
  have absent: "interpolate rt c (p @ CHR ''$'' # name @ rest) = Inr (p' @ ''undefined'' @ r)"
    if "c name = None" "object_inherits rt name = None" "interpolate rt c p = Inr p'"
       "interpolate rt c rest = Inr r" for p' r
    unfolding eq using that by (simp add: ctx_get_def inherited_def)
  have plain: "CHR ''$'' \<notin> set p \<longrightarrow> interpolate rt c p = Inr p"
    by (simp add: interpolate_no_dollar)
  have run: "(case interpolate rt c (p @ CHR ''$'' # name @ rest) of
                  Inl err \<Rightarrow> e = Threw err \<and> sent = []
                | Inr path \<Rightarrow>
                    (case auth_headers rt (q_auth t) c of
                       Inl err \<Rightarrow> e = Threw err \<and> sent = []
                     | Inr headers \<Rightarrow>
                         sent = (case build_request pf path
                                        \<lparr>o_body = (if q_body t = JUndefined then JNull
                                                   else q_body t),
                                         o_headers = headers, o_params = []\<rparr> of
                                   Inl early \<Rightarrow> [] | Inr rq \<Rightarrow> [rq])))"
    if u: "q_url t = p @ CHR ''$'' # name @ rest" and r: "run_case rt pf t c w = (e, w', sent)"
    for pf :: "'a platform" and t w e w' sent
  proof (cases "prepare rt t c")
    case (Inl err)
    from run_case_threw [OF Inl, of pf w] r have "e = Threw err" "sent = []" by simp_all
    with Inl u show ?thesis
      by (auto simp: prepare_def split: sum.splits)
  next
    case (Inr po)
    with run_case_sent [OF r] u show ?thesis
      by (auto simp: prepare_def split: sum.splits prod.splits)
  qed
  from eq present absent plain run show ?thesis by blast
qed

theorem interpolate_token_witness:
  "interpolate sample_runtime id_ctx ''GET /users/$id'' = Inr ''GET /users/42''
   \<and> interpolate sample_runtime Map.empty ''GET /users/$id/posts'' =
       Inr ''GET /users/undefined/posts''
   \<and> interpolate sample_runtime id_ctx ''GET /users/$id/posts/$id'' =
       Inr ''GET /users/42/posts/42''"
proof -
  have e1: "[] = [] \<or> \<not> is_word (hd [])" by simp
  have e2: "''/posts'' = [] \<or> \<not> is_word (hd ''/posts'')"
    by (simp add: is_word_def is_alpha_def is_digit_def)
  have e3: "''/posts/'' = [] \<or> \<not> is_word (hd ''/posts/'')"
    by (simp add: is_word_def is_alpha_def is_digit_def)
  have i: "ctx_get sample_runtime id_ctx ''id'' = JStr ''42''"
    by (simp add: ctx_get_def id_ctx_def)
  have a: "interpolate sample_runtime id_ctx ''GET /users/$id'' = Inr ''GET /users/42''"
    using interpolate_token [OF token_id e1, of sample_runtime id_ctx "''GET /users/''",
            THEN conjunct1]
    by (simp add: i interpolate_no_dollar interpolate.simps(1))
  have b: "interpolate sample_runtime Map.empty ''GET /users/$id/posts'' =
             Inr ''GET /users/undefined/posts''"
    using interpolate_token [OF token_id e2, of sample_runtime Map.empty "''GET /users/''",
            THEN conjunct1]
    by (simp add: id_unset interpolate_no_dollar)
  have p: "interpolate sample_runtime id_ctx ''GET /users/$id/posts/'' =
             Inr ''GET /users/42/posts/''"
    using interpolate_token [OF token_id e3, of sample_runtime id_ctx "''GET /users/''",
            THEN conjunct1]
    by (simp add: i interpolate_no_dollar)
  have c: "interpolate sample_runtime id_ctx ''GET /users/$id/posts/$id'' =
             Inr ''GET /users/42/posts/42''"
    using interpolate_token [OF token_id e1, of sample_runtime id_ctx "''GET /users/$id/posts/''",
            THEN conjunct1]
    by (simp add: i p interpolate.simps(1))
  from a b c show ?thesis by simp
qed

section \<open>Order and halting of a run\<close>

lemma run_step:
  assumes "run_case rt pf t c w = (e, w', sent)"
  shows "runQueuedTests rt pf (t # ts) c w =
           (case e of
              Passed res c' \<Rightarrow>
                (fst (runQueuedTests rt pf ts c' w'),
                 \<lparr>e_test = t, e_ctx = c, e_world = w, e_sent = sent, e_end = e, e_after = w'\<rparr> #
                   snd (runQueuedTests rt pf ts c' w'))
            | Mismatch res \<Rightarrow> (Exit1, [\<lparr>e_test = t, e_ctx = c, e_world = w, e_sent = sent, e_end = e, e_after = w'\<rparr>])
            | CallbackThrew res err \<Rightarrow>
                (Rejected err, [\<lparr>e_test = t, e_ctx = c, e_world = w, e_sent = sent, e_end = e, e_after = w'\<rparr>])
            | Threw err \<Rightarrow>
                (Rejected err, [\<lparr>e_test = t, e_ctx = c, e_world = w, e_sent = sent, e_end = e, e_after = w'\<rparr>]))"
  using assms by (simp add: Let_def split: case_end.splits prod.splits)

text \<open>The executed tests are an initial segment of the queue, in enqueue order.\<close>

lemma run_prefix:
  "runQueuedTests rt pf ts c w = (r, tr) \<Longrightarrow> map e_test tr = take (length tr) ts"
proof (induction ts arbitrary: c w r tr)
  case Nil
  then show ?case by simp
next
  case (Cons t ts)
  obtain e w' sent where rc: "run_case rt pf t c w = (e, w', sent)"
    by (cases "run_case rt pf t c w") auto
  show ?case
  proof (cases e)
    case (Passed res c')
    with Cons.prems run_step [OF rc, of ts]
    have "tr = \<lparr>e_test = t, e_ctx = c, e_world = w, e_sent = sent, e_end = e, e_after = w'\<rparr> #
                 snd (runQueuedTests rt pf ts c' w')"
      by auto
    moreover have "map e_test (snd (runQueuedTests rt pf ts c' w')) =
                     take (length (snd (runQueuedTests rt pf ts c' w'))) ts"
      using Cons.IH [of c' w' "fst (runQueuedTests rt pf ts c' w')"
                       "snd (runQueuedTests rt pf ts c' w')"] by simp
    ultimately show ?thesis by simp
  qed (use Cons.prems run_step [OF rc, of ts] in auto)
qed

text \<open>
  The run advances only over tests that passed, and hands the context the callback
  returned to the next test.
\<close>

lemma run_chain:
  "runQueuedTests rt pf ts c w = (r, tr) \<Longrightarrow>
     (tr \<noteq> [] \<longrightarrow> e_ctx (hd tr) = c \<and> e_world (hd tr) = w) \<and>
     (\<forall>i. Suc i < length tr \<longrightarrow>
        (\<exists>res. e_end (tr ! i) = Passed res (e_ctx (tr ! Suc i))) \<and>
        e_world (tr ! Suc i) = e_after (tr ! i))"
proof (induction ts arbitrary: c w r tr)
  case Nil
  then show ?case by simp
next
  case (Cons t ts)
  obtain e w' sent where rc: "run_case rt pf t c w = (e, w', sent)"
    by (cases "run_case rt pf t c w") auto
  show ?case
  proof (cases e)
    case (Passed res c')
    define tr' where "tr' = snd (runQueuedTests rt pf ts c' w')"
    from Passed Cons.prems run_step [OF rc, of ts]
    have tr: "tr = \<lparr>e_test = t, e_ctx = c, e_world = w, e_sent = sent, e_end = e, e_after = w'\<rparr> # tr'"
      by (auto simp: tr'_def)
    have ih: "(tr' \<noteq> [] \<longrightarrow> e_ctx (hd tr') = c' \<and> e_world (hd tr') = w') \<and>
              (\<forall>i. Suc i < length tr' \<longrightarrow>
                 (\<exists>res. e_end (tr' ! i) = Passed res (e_ctx (tr' ! Suc i))) \<and>
                 e_world (tr' ! Suc i) = e_after (tr' ! i))"
      using Cons.IH [of c' w' "fst (runQueuedTests rt pf ts c' w')" tr'] by (simp add: tr'_def)
    have "(\<exists>res. e_end (tr ! i) = Passed res (e_ctx (tr ! Suc i))) \<and>
          e_world (tr ! Suc i) = e_after (tr ! i)" if "Suc i < length tr" for i
    proof (cases i)
      case 0
      with that tr have "tr' \<noteq> []" by auto
      with ih have "e_ctx (hd tr') = c'" "e_world (hd tr') = w'" by simp_all
      with 0 tr Passed \<open>tr' \<noteq> []\<close> show ?thesis by (simp add: hd_conv_nth)
    next
      case (Suc j)
      with that tr ih show ?thesis by simp
    qed
    with tr show ?thesis by simp
  qed (use Cons.prems run_step [OF rc, of ts] in auto)
qed

lemma run_trace_nonempty: "snd (runQueuedTests rt pf (t # ts) c w) \<noteq> []"
proof -
  obtain e w' sent where rc: "run_case rt pf t c w = (e, w', sent)"
    by (cases "run_case rt pf t c w") auto
  show ?thesis using run_step [OF rc, of ts] by (cases e) auto
qed

text \<open>How the run ends, read off the last executed test.\<close>

lemma run_result:
  "runQueuedTests rt pf ts c w = (r, tr) \<Longrightarrow>
     (r = Exit0 \<longleftrightarrow> length tr = length ts \<and> (\<forall>x \<in> set tr. is_Passed (e_end x))) \<and>
     (r = Exit1 \<longleftrightarrow> tr \<noteq> [] \<and> is_Mismatch (e_end (last tr))) \<and>
     (\<forall>err. r = Rejected err \<longleftrightarrow> tr \<noteq> [] \<and> thrown_by (e_end (last tr)) = Some err)"
proof (induction ts arbitrary: c w r tr)
  case Nil
  then show ?case by auto
next
  case (Cons t ts)
  obtain e w' sent where rc: "run_case rt pf t c w = (e, w', sent)"
    by (cases "run_case rt pf t c w") auto
  show ?case
  proof (cases e)
    case (Passed res c')
    define tr' where "tr' = snd (runQueuedTests rt pf ts c' w')"
    define r' where "r' = fst (runQueuedTests rt pf ts c' w')"
    from Passed Cons.prems run_step [OF rc, of ts]
    have tr: "tr = \<lparr>e_test = t, e_ctx = c, e_world = w, e_sent = sent, e_end = e, e_after = w'\<rparr> # tr'" and r: "r = r'"
      by (auto simp: tr'_def r'_def)
    have ih: "(r' = Exit0 \<longleftrightarrow> length tr' = length ts \<and> (\<forall>x \<in> set tr'. is_Passed (e_end x))) \<and>
              (r' = Exit1 \<longleftrightarrow> tr' \<noteq> [] \<and> is_Mismatch (e_end (last tr'))) \<and>
              (\<forall>err. r' = Rejected err \<longleftrightarrow> tr' \<noteq> [] \<and> thrown_by (e_end (last tr')) = Some err)"
      using Cons.IH [of c' w' r' tr'] by (simp add: tr'_def r'_def)
    have empty: "tr' = [] \<Longrightarrow> r' = Exit0"
      using run_trace_nonempty [of rt pf _ _ c' w']
      by (cases ts) (auto simp: tr'_def r'_def)
    show ?thesis
    proof (cases "tr' = []")
      case True
      with empty ih tr r Passed show ?thesis by auto
    next
      case False
      with ih tr r Passed show ?thesis by auto
    qed
  qed (use Cons.prems run_step [OF rc, of ts] in auto)
qed

text \<open>Every entry of the trace records an execution of \<open>run_case\<close>.\<close>

lemma run_entries:
  "runQueuedTests rt pf ts c w = (r, tr) \<Longrightarrow>
     \<forall>x \<in> set tr. run_case rt pf (e_test x) (e_ctx x) (e_world x) = (e_end x, e_after x, e_sent x)"
proof (induction ts arbitrary: c w r tr)
  case Nil
  then show ?case by simp
next
  case (Cons t ts)
  obtain e w' sent where rc: "run_case rt pf t c w = (e, w', sent)"
    by (cases "run_case rt pf t c w") auto
  show ?case
  proof (cases e)
    case (Passed res c')
    with Cons.prems run_step [OF rc, of ts]
    have "tr = \<lparr>e_test = t, e_ctx = c, e_world = w, e_sent = sent, e_end = e, e_after = w'\<rparr> #
                 snd (runQueuedTests rt pf ts c' w')"
      by auto
    moreover have "\<forall>x \<in> set (snd (runQueuedTests rt pf ts c' w')).
                     run_case rt pf (e_test x) (e_ctx x) (e_world x) =
                       (e_end x, e_after x, e_sent x)"
      using Cons.IH [of c' w' "fst (runQueuedTests rt pf ts c' w')"
                       "snd (runQueuedTests rt pf ts c' w')"] by simp
    ultimately show ?thesis using rc by simp
  qed (use Cons.prems run_step [OF rc, of ts] rc in auto)
qed

text \<open>
  How one execution ends, in terms of what \<open>req\<close> returned: the status of the response
  is compared with the expected status.
\<close>

lemma run_case_outcome:
  assumes "run_case rt pf t c w = (e, w', sent)"
  shows "(case prepare rt t c of
            Inl err \<Rightarrow> e = Threw err
          | Inr (path, opts) \<Rightarrow>
              (case fst (req pf path opts w) of
                 Inl err \<Rightarrow> e = Threw err
               | Inr res \<Rightarrow>
                   (if status res \<noteq> q_expStatus t then e = Mismatch res
                    else (case q_save t of
                            None \<Rightarrow> e = Passed res c
                          | Some save \<Rightarrow>
                              (case save res c of
                                 Inl err \<Rightarrow> e = CallbackThrew res err
                               | Inr c' \<Rightarrow> e = Passed res c')))))"
  using assms unfolding run_case_def judge_def
  by (auto split: prod.splits sum.splits option.splits if_splits)

text \<open>The first test is always executed, and a test that passed is followed by the next.\<close>

lemma run_advance:
  assumes "runQueuedTests rt pf ts c w = (r, tr)"
  shows "(ts \<noteq> [] \<longrightarrow> tr \<noteq> []) \<and>
         (\<forall>i. i < length tr \<and> is_Passed (e_end (tr ! i)) \<and> Suc i < length ts \<longrightarrow>
              Suc i < length tr)"
proof -
  have first: "ts \<noteq> [] \<longrightarrow> tr \<noteq> []"
  proof (cases ts)
    case Nil
    then show ?thesis by simp
  next
    case (Cons t ts')
    from assms have "snd (runQueuedTests rt pf (t # ts') c w) = tr"
      unfolding Cons by (simp only: snd_conv)
    with run_trace_nonempty [of rt pf t ts' c w] show ?thesis by simp
  qed
  have next_runs: "Suc i < length tr"
    if i: "i < length tr" and p: "is_Passed (e_end (tr ! i))" and n: "Suc i < length ts" for i
  proof (rule ccontr)
    assume "\<not> Suc i < length tr"
    with i have l: "Suc i = length tr" by simp
    then have ne: "tr \<noteq> []" by auto
    from l have "length tr - 1 = i" by arith
    with ne have last: "last tr = tr ! i" by (simp add: last_conv_nth)
    from p last have nm: "\<not> is_Mismatch (e_end (last tr))"
      and nt: "thrown_by (e_end (last tr)) = None"
      by (cases "e_end (tr ! i)"; simp)+
    note res = run_result [OF assms]
    have "r = Exit0"
    proof (cases r)
      case Exit0
      then show ?thesis .
    next
      case Exit1
      with res nm show ?thesis by simp
    next
      case (Rejected err)
      with res have "thrown_by (e_end (last tr)) = Some err" by blast
      with nt show ?thesis by simp
    qed
    with res have "length tr = length ts" by blast
    with l n show False by simp
  qed
  from first next_runs show ?thesis by blast
qed

lemma parse_POST_sessions: "parse_methodPath ''POST /sessions'' = (''POST'', ''/sessions'')"
  by (simp add: parse_methodPath_def piece_def)

lemma prepare_session:
  "prepare rt session_test c =
     Inr (''POST /sessions'', \<lparr>o_body = JObj [], o_headers = [], o_params = []\<rparr>)"
  by (simp add: prepare_def session_test_def interpolate_no_dollar auth_headers_def)

lemma req_session:
  "req (answering 200) ''POST /sessions''
     \<lparr>o_body = JObj [], o_headers = [], o_params = []\<rparr> () =
   (Inr \<lparr>status = 200, body = JStr ''ok''\<rparr>, (), [session_request])"
proof -
  have b: "build_request (answering 200) ''POST /sessions''
             \<lparr>o_body = JObj [], o_headers = [], o_params = []\<rparr> = Inr session_request"
    by (simp add: build_request_def parse_POST_sessions answering_def base_url_of_def
          new_Headers_empty headers_has_def session_request_def)
  have f: "fetch (answering 200) () session_request =
             (Inr \<lparr>rs_status = 200, rs_content_type = Some ''text/plain'',
                   rs_json = Inl ''Unexpected token'', rs_text = Inr ''ok''\<rparr>, ())"
    by (simp add: answering_def)
  show ?thesis
    by (simp add: req_def b f read_response_def startsWith_def)
qed

lemma run_session:
  "run_case rt (answering 200) session_test Map.empty () =
     (CallbackThrew \<lparr>status = 200, body = JStr ''ok''\<rparr> (Thrown ''FAIL: Expected field message''),
      (), [session_request])"
  by (simp add: run_case_def prepare_session req_session judge_def)
     (simp add: session_test_def message_assertion_def)

lemma req_profile_404:
  "req (answering 404) ''GET /profile'' \<lparr>o_body = JNull, o_headers = [], o_params = []\<rparr> () =
     (Inr \<lparr>status = 404, body = JStr ''ok''\<rparr>, (), [profile_request []])"
  by (simp add: req_def build_profile_request [OF new_Headers_empty])
     (simp add: answering_def read_response_def startsWith_def)

lemma run_profile_404:
  "run_case sample_runtime (answering 404) profile_test Map.empty () =
     (Mismatch \<lparr>status = 404, body = JStr ''ok''\<rparr>, (), [profile_request []])"
  by (simp add: run_case_def prepare_profile_empty req_profile_404 judge_def)
     (simp add: profile_test_def)

text \<open>
  Claim C7, as stated, fails where it says that a test whose status matched is followed
  by the next test. The callback runs inside the loop without a handler: when it
  throws, as the generated assertion callbacks do on a response that lacks the expected
  field, the run is rejected on the spot. Here the first test expects status \<open>200\<close>, the
  response that \<open>req\<close> returns has status \<open>200\<close>, its callback throws, and the second
  queued test is never executed.
\<close>

theorem callback_throw_counterexample:
  "q_expStatus session_test = 200 \<and>
   fst (req (answering 200) ''POST /sessions''
          \<lparr>o_body = JObj [], o_headers = [], o_params = []\<rparr> ()) =
     Inr \<lparr>status = 200, body = JStr ''ok''\<rparr> \<and>
   runQueuedTests sample_runtime (answering 200) [session_test, profile_test] Map.empty () =
     (Rejected (Thrown ''FAIL: Expected field message''),
      [\<lparr>e_test = session_test, e_ctx = Map.empty, e_world = (), e_sent = [session_request],
        e_end = CallbackThrew \<lparr>status = 200, body = JStr ''ok''\<rparr>
                  (Thrown ''FAIL: Expected field message''),
        e_after = ()\<rparr>])"
  using run_step [OF run_session, of sample_runtime "[profile_test]"]
  by (simp add: session_test_def req_session)

text \<open>
  Claim C7, amended. The tests are executed strictly in enqueue order, none skipped:
  the executed tests are an initial segment of the queue, and the first queued test is
  always executed, in the initial context. Every executed test is one execution of the
  loop body: the path and the headers are prepared, \<open>req\<close> is called, and the status of
  the response that \<open>req\<close> returned is compared with the expected status. When they
  differ the test ends as a mismatch, whatever its callback is. When they are equal the
  callback, if there is one, runs on that response and on the context; the test passes
  when the callback returns (or is absent) and ends with the callback's error when it
  throws. A test is followed by another only if it passed, and a test that passed is
  followed by the next queued test, which runs in the context the callback left and in
  the state of the world the test left. A test that did not pass is the last one
  executed: a mismatch ends the run with exit code \<open>1\<close>, an error thrown by the
  callback, by the preparation or by the request helper rejects it. The run ends with
  exit code \<open>0\<close> exactly when every queued test was executed and passed.
\<close>

theorem run_order_fail_fast:
  assumes "runQueuedTests rt pf ts c w = (r, tr)"
  shows "map e_test tr = take (length tr) ts
         \<and> (ts \<noteq> [] \<longrightarrow> tr \<noteq> [] \<and> e_ctx (hd tr) = c \<and> e_world (hd tr) = w)
         \<and> (\<forall>x \<in> set tr.
               run_case rt pf (e_test x) (e_ctx x) (e_world x) = (e_end x, e_after x, e_sent x))
         \<and> (\<forall>x \<in> set tr.
               (case prepare rt (e_test x) (e_ctx x) of
                  Inl err \<Rightarrow> e_end x = Threw err
                | Inr (path, opts) \<Rightarrow>
                    (case fst (req pf path opts (e_world x)) of
                       Inl err \<Rightarrow> e_end x = Threw err
                     | Inr res \<Rightarrow>
                         (if status res \<noteq> q_expStatus (e_test x) then e_end x = Mismatch res
                          else (case q_save (e_test x) of
                                  None \<Rightarrow> e_end x = Passed res (e_ctx x)
                                | Some save \<Rightarrow>
                                    (case save res (e_ctx x) of
                                       Inl err \<Rightarrow> e_end x = CallbackThrew res err
                                     | Inr c' \<Rightarrow> e_end x = Passed res c'))))))
         \<and> (\<forall>i. Suc i < length tr \<longrightarrow>
                (\<exists>res. e_end (tr ! i) = Passed res (e_ctx (tr ! Suc i))) \<and>
                e_world (tr ! Suc i) = e_after (tr ! i))
         \<and> (\<forall>i. i < length tr \<and> is_Passed (e_end (tr ! i)) \<and> Suc i < length ts \<longrightarrow>
                Suc i < length tr)
         \<and> (\<forall>i. i < length tr \<and> \<not> is_Passed (e_end (tr ! i)) \<longrightarrow> Suc i = length tr)
         \<and> (r = Exit0 \<longleftrightarrow> length tr = length ts \<and> (\<forall>x \<in> set tr. is_Passed (e_end x)))
         \<and> (r = Exit1 \<longleftrightarrow> tr \<noteq> [] \<and> is_Mismatch (e_end (last tr)))
         \<and> (\<forall>err. r = Rejected err \<longleftrightarrow> tr \<noteq> [] \<and> thrown_by (e_end (last tr)) = Some err)"
proof -
  note chain = run_chain [OF assms]
  note adv = run_advance [OF assms]
  note ent = run_entries [OF assms]
  have start: "ts \<noteq> [] \<longrightarrow> tr \<noteq> [] \<and> e_ctx (hd tr) = c \<and> e_world (hd tr) = w"
    using chain adv by blast
  have outcome:
    "(case prepare rt (e_test x) (e_ctx x) of
        Inl err \<Rightarrow> e_end x = Threw err
      | Inr (path, opts) \<Rightarrow>
          (case fst (req pf path opts (e_world x)) of
             Inl err \<Rightarrow> e_end x = Threw err
           | Inr res \<Rightarrow>
               (if status res \<noteq> q_expStatus (e_test x) then e_end x = Mismatch res
                else (case q_save (e_test x) of
                        None \<Rightarrow> e_end x = Passed res (e_ctx x)
                      | Some save \<Rightarrow>
                          (case save res (e_ctx x) of
                             Inl err \<Rightarrow> e_end x = CallbackThrew res err
                           | Inr c' \<Rightarrow> e_end x = Passed res c')))))"
    if "x \<in> set tr" for x
    using ent that by (intro run_case_outcome) blast
  have halt: "Suc i = length tr" if "i < length tr" "\<not> is_Passed (e_end (tr ! i))" for i
  proof (rule ccontr)
    assume "Suc i \<noteq> length tr"
    with that(1) have "Suc i < length tr" by simp
    with chain obtain res where "e_end (tr ! i) = Passed res (e_ctx (tr ! Suc i))" by blast
    with that(2) show False by simp
  qed
  from run_prefix [OF assms] start ent outcome chain adv halt run_result [OF assms]
  show ?thesis by blast
qed

theorem run_order_fail_fast_witness:
  "runQueuedTests sample_runtime (answering 404) [profile_test, session_test] Map.empty () =
     (Exit1, [\<lparr>e_test = profile_test, e_ctx = Map.empty, e_world = (),
               e_sent = [profile_request []],
               e_end = Mismatch \<lparr>status = 404, body = JStr ''ok''\<rparr>, e_after = ()\<rparr>])
   \<and> map e_test [\<lparr>e_test = profile_test, e_ctx = Map.empty, e_world = (),
                   e_sent = [profile_request []],
                   e_end = Mismatch \<lparr>status = 404, body = JStr ''ok''\<rparr>, e_after = ()\<rparr>] =
       take 1 [profile_test, session_test]
   \<and> fst (req (answering 404) ''GET /profile''
            \<lparr>o_body = JNull, o_headers = [], o_params = []\<rparr> ()) =
       Inr \<lparr>status = 404, body = JStr ''ok''\<rparr>
   \<and> status \<lparr>status = 404, body = JStr ''ok''\<rparr> \<noteq> q_expStatus profile_test"
proof -
  have run: "runQueuedTests sample_runtime (answering 404) [profile_test, session_test]
               Map.empty () =
     (Exit1, [\<lparr>e_test = profile_test, e_ctx = Map.empty, e_world = (),
               e_sent = [profile_request []],
               e_end = Mismatch \<lparr>status = 404, body = JStr ''ok''\<rparr>, e_after = ()\<rparr>])"
    using run_step [OF run_profile_404, of "[session_test]"] by simp
  from run_order_fail_fast [OF run, THEN conjunct1] run show ?thesis
    by (simp add: req_profile_404 profile_test_def)
qed

section \<open>Order of the status codes\<close>

lemma js_insert_set: "set (js_insert cmp x ys) = insert x (set ys)"
  by (induction ys) auto

lemma js_sort_set: "set (js_sort cmp xs) = set xs"
  by (induction xs) (auto simp: js_sort_def js_insert_set)

text \<open>
  Insertion keeps a list sorted for every relation that is transitive and total on the
  elements at hand and that the comparator decides.
\<close>

lemma js_insert_sorted:
  assumes dec: "\<And>a b. a \<in> S \<Longrightarrow> b \<in> S \<Longrightarrow> sort_before cmp a b \<longleftrightarrow> \<not> R b a"
      and trans: "\<And>a b c. R a b \<Longrightarrow> R b c \<Longrightarrow> R a c"
      and total: "\<And>a b. R a b \<or> R b a"
      and "x \<in> S" and "set ys \<subseteq> S" and "sorted_wrt R ys"
  shows "sorted_wrt R (js_insert cmp x ys)"
  using assms(4-)
proof (induction ys)
  case Nil
  then show ?case by simp
next
  case (Cons y ys)
  show ?case
  proof (cases "sort_before cmp y x")
    case True
    with dec [of y x] Cons.prems have "\<not> R x y" by simp
    with total [of x y] have "R y x" by simp
    with True Cons show ?thesis by (auto simp: js_insert_set)
  next
    case False
    with dec [of y x] Cons.prems have xy: "R x y" by simp
    have "R x z" if "z \<in> set ys" for z
      using that Cons.prems(3) trans [OF xy, of z] by auto
    with False xy Cons.prems show ?thesis by auto
  qed
qed

lemma js_sort_sorted:
  assumes dec: "\<And>a b. a \<in> S \<Longrightarrow> b \<in> S \<Longrightarrow> sort_before cmp a b \<longleftrightarrow> \<not> R b a"
      and trans: "\<And>a b c. R a b \<Longrightarrow> R b c \<Longrightarrow> R a c"
      and total: "\<And>a b. R a b \<or> R b a"
      and "set xs \<subseteq> S"
  shows "sorted_wrt R (js_sort cmp xs)"
  using assms(4)
proof (induction xs)
  case Nil
  then show ?case by (simp add: js_sort_def)
next
  case (Cons x xs)
  then have "sorted_wrt R (js_sort cmp xs)" by simp
  from js_insert_sorted [of S cmp R x "js_sort cmp xs", OF dec trans total _ _ this] Cons.prems
  show ?case by (simp add: js_sort_def js_sort_set [unfolded js_sort_def])
qed

lemma digit_not_space: "is_digit c \<Longrightarrow> \<not> is_space c"
  by (auto simp: is_digit_def is_space_def)

lemma digit_not_sign: "is_digit c \<Longrightarrow> c \<noteq> CHR ''-'' \<and> c \<noteq> CHR ''+''"
  by (auto simp: is_digit_def)

text \<open>On a numeric status code \<open>parseInt\<close> returns its number.\<close>

lemma parseInt_numeric:
  assumes "numeric_code s"
  shows "parseInt s = Some (int (code_number s))"
proof -
  from assms have ne: "s \<noteq> []" and c: "is_digit (hd s)" and all: "list_all is_digit s"
    by (cases s; simp add: numeric_code_def)+
  have d: "dropWhile is_space s = s"
    using ne c digit_not_space by (cases s) auto
  have t: "takeWhile is_digit s = s" using all by (simp add: list_all_iff)
  show ?thesis
    using ne digit_not_sign [OF c]
    by (simp add: parseInt_def Let_def code_number_def d t)
qed

lemma status_cmp_decides:
  assumes "numeric_code a" "numeric_code b"
  shows "sort_before status_cmp a b \<longleftrightarrow> \<not> status_before b a"
  using parseInt_numeric [OF assms(1)] parseInt_numeric [OF assms(2)]
  by (auto simp: sort_before_def status_cmp_def Let_def in_error_range_def status_before_def
        error_code_def)

lemma status_before_trans: "status_before a b \<Longrightarrow> status_before b c \<Longrightarrow> status_before a c"
  by (auto simp: status_before_def)

lemma status_before_total: "status_before a b \<or> status_before b a"
  by (auto simp: status_before_def)

lemma sortStatusCodes_sorted:
  assumes "\<forall>c \<in> set statusCodes. numeric_code c"
  shows "sorted_wrt status_before (sortStatusCodes statusCodes)"
  unfolding sortStatusCodes_def
  using js_sort_sorted [of "Collect numeric_code" status_cmp status_before statusCodes]
        status_cmp_decides status_before_trans status_before_total assms
  by blast

lemma emitted_codes_set: "set (emitted_codes statusCodes) = set statusCodes - {''500''}"
  by (auto simp: emitted_codes_def sortStatusCodes_def js_sort_set)

lemma map_err_codes:
  assumes "map_err f xs = Inr ys"
      and "\<And>x y. f x = Inr y \<Longrightarrow> line_code y = Some x"
  shows "map line_code ys = map Some xs"
  using assms(1)
proof (induction xs arbitrary: ys)
  case Nil
  then show ?case by simp
next
  case (Cons x xs)
  then show ?case using assms(2) by (auto split: sum.splits)
qed

lemma emit_case_code: "emit_case rt doc route meth detail code = Inr l \<Longrightarrow> line_code l = Some code"
  by (auto simp: emit_case_def bind_err_def emit_line_def Let_def
        split: if_splits sum.splits prod.splits)

lemma emit_group_codes:
  "emit_group rt doc route meth detail = Inr ls \<Longrightarrow>
     map line_code ls = map Some (emitted_codes (response_codes detail))"
  using map_err_codes [of "emit_case rt doc route meth detail" _ ls] emit_case_code
  by (auto simp: emit_group_def bind_err_def split: sum.splits)

lemma post_line_code: "line_code (post_line route detail exampleBody code) = Some code"
  by (simp add: post_line_def)

lemma map_filter_post_lines:
  "List.map_filter line_code (map (post_line route detail exampleBody) codes @ extra) =
     codes @ List.map_filter line_code extra"
  by (induction codes) (auto simp: List.map_filter_simps post_line_code)

lemma map_filter_post_lines_only:
  "List.map_filter line_code (map (post_line route detail exampleBody) codes) = codes"
  using map_filter_post_lines [of route detail exampleBody codes "[]"]
  by (simp add: List.map_filter_simps)

lemma prioritized_codes:
  assumes "prioritized_lines rt doc pathList route = Inr ls"
      and "find (\<lambda>item. fst item = route) pathList = Some item"
      and "truthy (own_get (snd item) ''post'')"
  shows "List.map_filter line_code ls =
           emitted_codes (response_codes (own_get (snd item) ''post''))"
  using assms
  by (auto simp: prioritized_lines_def bind_err_def get_prop_def Let_def map_filter_post_lines
        map_filter_post_lines_only List.map_filter_simps split: sum.splits if_splits)

lemma sessions_codes:
  assumes "sessions_lines rt doc pathList = Inr ls"
      and "find (\<lambda>item. fst item = ''/sessions'') pathList = Some item"
      and "truthy (own_get (snd item) ''post'')"
  shows "List.map_filter line_code ls =
           emitted_codes (response_codes (own_get (snd item) ''post''))"
  using assms
  by (auto simp: sessions_lines_def bind_err_def get_prop_def Let_def
        map_filter_post_lines_only split: sum.splits if_splits)

text \<open>
  The lines of the general pass are tests, none of them for status \<open>500\<close>; the output
  as a whole has no test for status \<open>500\<close>.
\<close>

lemma emitted_no_500: "''500'' \<notin> set (emitted_codes statusCodes)"
  by (simp add: emitted_codes_def)

lemma prioritized_no_500:
  "prioritized_lines rt doc pathList route = Inr ls \<Longrightarrow> Some ''500'' \<notin> line_code ` set ls"
  by (auto simp: prioritized_lines_def bind_err_def Let_def post_line_code emitted_no_500
        split: option.splits sum.splits if_splits)

lemma sessions_no_500:
  "sessions_lines rt doc pathList = Inr ls \<Longrightarrow> Some ''500'' \<notin> line_code ` set ls"
  by (auto simp: sessions_lines_def bind_err_def Let_def post_line_code emitted_no_500
        split: option.splits sum.splits if_splits)

lemma map_err_all:
  "map_err f xs = Inr ys \<Longrightarrow> (\<forall>x y. f x = Inr y \<longrightarrow> P y) \<Longrightarrow> \<forall>y \<in> set ys. P y"
  by (induction xs arbitrary: ys) (auto split: sum.splits)

lemma emit_case_test: "emit_case rt doc route meth detail code = Inr l \<Longrightarrow> is_test l"
  by (auto simp: emit_case_def bind_err_def split: if_splits sum.splits prod.splits)

lemma emit_group_tests:
  assumes "emit_group rt doc route meth detail = Inr ls"
  shows "\<forall>l \<in> set ls. is_test l \<and> line_code l \<noteq> Some ''500''"
proof -
  have "set (map line_code ls) = Some ` set (emitted_codes (response_codes detail))"
    using emit_group_codes [OF assms] by simp
  then have "Some ''500'' \<notin> set (map line_code ls)"
    using emitted_no_500 by auto
  moreover have "\<forall>l \<in> set ls. is_test l"
    using assms map_err_all [of "emit_case rt doc route meth detail" _ ls is_test] emit_case_test
    by (auto simp: emit_group_def bind_err_def split: sum.splits)
  ultimately show ?thesis by (metis image_eqI list.set_map)
qed

lemma route_lines_tests:
  assumes "route_lines rt doc item = Inr ls"
  shows "\<forall>l \<in> set ls. is_test l \<and> line_code l \<noteq> Some ''500''"
proof -
  from assms obtain groups where
    g: "map_err (\<lambda>(meth, detail).
                  if skipped (fst item) meth then Inr []
                  else emit_group rt doc (fst item) meth detail)
          (entries (snd item)) = Inr groups"
    and ls: "ls = concat groups"
    by (auto simp: route_lines_def bind_err_def split: if_splits sum.splits)
  have "\<forall>grp \<in> set groups. \<forall>l \<in> set grp. is_test l \<and> line_code l \<noteq> Some ''500''"
  proof (rule map_err_all [OF g], intro allI impI)
    fix x grp
    assume "(case x of (meth, detail) \<Rightarrow>
               if skipped (fst item) meth then Inr []
               else emit_group rt doc (fst item) meth detail) = Inr grp"
    then show "\<forall>l \<in> set grp. is_test l \<and> line_code l \<noteq> Some ''500''"
      using emit_group_tests [of rt doc "fst item" "fst x" "snd x" grp]
      by (cases x) (auto split: if_splits)
  qed
  with ls show ?thesis by auto
qed

lemma general_lines_tests:
  assumes "general_lines rt doc pathList = Inr ls"
  shows "\<forall>l \<in> set ls. is_test l \<and> line_code l \<noteq> Some ''500''"
proof -
  from assms obtain rs where
    g: "map_err (route_lines rt doc) pathList = Inr rs" and ls: "ls = concat rs"
    by (auto simp: general_lines_def bind_err_def split: sum.splits)
  have "\<forall>r \<in> set rs. \<forall>l \<in> set r. is_test l \<and> line_code l \<noteq> Some ''500''"
  proof (rule map_err_all [OF g], intro allI impI)
    fix x r
    assume "route_lines rt doc x = Inr r"
    then show "\<forall>l \<in> set r. is_test l \<and> line_code l \<noteq> Some ''500''"
      by (rule route_lines_tests)
  qed
  with ls show ?thesis by auto
qed

lemma header_no_500: "Some ''500'' \<notin> line_code ` set (header_lines swaggerUiLink bakedBaseUrl)"
  by (auto simp: header_lines_def split: option.splits)

text \<open>The parts the output is made of.\<close>

lemma test_lines_parts:
  assumes "test_lines rt swaggerDoc swaggerUiLink bakedBaseUrl = Inr ls"
  shows "\<exists>p pathList users trainees sessions general.
           get_prop swaggerDoc ''paths'' = Inr p \<and>
           sort_pathList (entries (if truthy p then p else JObj [])) = Inr pathList \<and>
           prioritized_lines rt swaggerDoc pathList ''/users'' = Inr users \<and>
           prioritized_lines rt swaggerDoc pathList ''/trainees'' = Inr trainees \<and>
           sessions_lines rt swaggerDoc pathList = Inr sessions \<and>
           general_lines rt swaggerDoc pathList = Inr general \<and>
           ls = header_lines swaggerUiLink bakedBaseUrl @ users @ trainees @ sessions @
                general @ [BlankLine, RunLine]"
  using assms by (auto simp: test_lines_def bind_err_def split: sum.splits)

lemma test_lines_no_500:
  assumes "test_lines rt swaggerDoc swaggerUiLink bakedBaseUrl = Inr ls"
  shows "Some ''500'' \<notin> line_code ` set ls"
proof -
  from test_lines_parts [OF assms] obtain pathList users trainees sessions general where
    u: "prioritized_lines rt swaggerDoc pathList ''/users'' = Inr users" and
    t: "prioritized_lines rt swaggerDoc pathList ''/trainees'' = Inr trainees" and
    s: "sessions_lines rt swaggerDoc pathList = Inr sessions" and
    g: "general_lines rt swaggerDoc pathList = Inr general" and
    ls: "ls = header_lines swaggerUiLink bakedBaseUrl @ users @ trainees @ sessions @ general @
              [BlankLine, RunLine]"
    by blast
  have "Some ''500'' \<notin> line_code ` set [BlankLine, RunLine]" by simp
  moreover have "Some ''500'' \<notin> line_code ` set general"
    using general_lines_tests [OF g] by auto
  ultimately show ?thesis
    using header_no_500 [of swaggerUiLink bakedBaseUrl] prioritized_no_500 [OF u]
      prioritized_no_500 [OF t] sessions_no_500 [OF s] ls
    by (simp add: image_Un)
qed

text \<open>
  Claim C4. For the numeric status codes of a (route, method) group, the codes of the
  lines emitted for the group are the group's codes other than \<open>500\<close>, in an order that
  puts every code in the range 400 to 599 before all other codes and ascends within
  each of the two groups. This holds for the groups of the general pass and for the
  \<open>POST\<close> groups of the prioritised routes and of \<open>/sessions\<close>. No line of the whole
  output is a test for the status code \<open>500\<close>.
\<close>

theorem status_code_order:
  assumes "\<forall>c \<in> set statusCodes. numeric_code c"
  shows "sorted_wrt status_before (emitted_codes statusCodes)
         \<and> ''500'' \<notin> set (emitted_codes statusCodes)
         \<and> set (emitted_codes statusCodes) = set statusCodes - {''500''}
         \<and> (\<forall>rt doc route meth detail ls.
               response_codes detail = statusCodes \<and>
               emit_group rt doc route meth detail = Inr ls \<longrightarrow>
               map line_code ls = map Some (emitted_codes statusCodes))
         \<and> (\<forall>rt doc pathList route item ls.
               find (\<lambda>item. fst item = route) pathList = Some item \<and>
               truthy (own_get (snd item) ''post'') \<and>
               response_codes (own_get (snd item) ''post'') = statusCodes \<and>
               (prioritized_lines rt doc pathList route = Inr ls \<or>
                route = ''/sessions'' \<and> sessions_lines rt doc pathList = Inr ls) \<longrightarrow>
               List.map_filter line_code ls = emitted_codes statusCodes)
         \<and> (\<forall>rt swaggerDoc swaggerUiLink bakedBaseUrl ls.
               test_lines rt swaggerDoc swaggerUiLink bakedBaseUrl = Inr ls \<longrightarrow>
               Some ''500'' \<notin> line_code ` set ls)"
proof -
  have a: "sorted_wrt status_before (emitted_codes statusCodes)"
    unfolding emitted_codes_def
    by (rule sorted_wrt_filter) (rule sortStatusCodes_sorted [OF assms])
  have b: "\<forall>rt doc route meth detail ls.
               response_codes detail = statusCodes \<and>
               emit_group rt doc route meth detail = Inr ls \<longrightarrow>
               map line_code ls = map Some (emitted_codes statusCodes)"
    using emit_group_codes by blast
  have c: "\<forall>rt doc pathList route item ls.
               find (\<lambda>item. fst item = route) pathList = Some item \<and>
               truthy (own_get (snd item) ''post'') \<and>
               response_codes (own_get (snd item) ''post'') = statusCodes \<and>
               (prioritized_lines rt doc pathList route = Inr ls \<or>
                route = ''/sessions'' \<and> sessions_lines rt doc pathList = Inr ls) \<longrightarrow>
               List.map_filter line_code ls = emitted_codes statusCodes"
    using prioritized_codes sessions_codes by blast
  from a b c emitted_no_500 emitted_codes_set test_lines_no_500 show ?thesis by blast
qed

theorem status_code_order_witness:
  "emitted_codes [''201'', ''409'', ''500''] = [''409'', ''201'']
   \<and> sorted_wrt status_before [''409'', ''201'']
   \<and> emitted_codes [''200'', ''204'', ''400'', ''401'', ''404''] =
       [''400'', ''401'', ''404'', ''200'', ''204'']"
proof -
  have n: "\<forall>c \<in> set [''201'', ''409'', ''500'']. numeric_code c"
    by (simp add: numeric_code_def is_digit_def)
  have e: "emitted_codes [''201'', ''409'', ''500''] = [''409'', ''201'']"
    by code_simp
  have e': "emitted_codes [''200'', ''204'', ''400'', ''401'', ''404''] =
              [''400'', ''401'', ''404'', ''200'', ''204'']"
    by code_simp
  from status_code_order [OF n, THEN conjunct1] e e' show ?thesis by simp
qed

section \<open>The warning for a missing duplicate check\<close>

lemma count_post_lines:
  "count_list (map (post_line route detail exampleBody) codes) WarningLine = 0"
  by (induction codes) (auto simp: post_line_def)

lemma count_no_tests: "\<forall>l \<in> set ls. is_test l \<Longrightarrow> count_list ls WarningLine = 0"
  by (induction ls) auto

lemma emitted_409: "''409'' \<in> set (emitted_codes statusCodes) \<longleftrightarrow> ''409'' \<in> set statusCodes"
  by (auto simp: emitted_codes_set)

lemma prioritized_warning_count:
  "prioritized_lines rt doc pathList route = Inr ls \<Longrightarrow>
     count_list ls WarningLine = (if missing_409 pathList route then 1 else 0)"
  by (auto simp: prioritized_lines_def missing_409_def bind_err_def get_prop_def Let_def
        count_post_lines emitted_409 split: option.splits sum.splits if_splits)

lemma sessions_warning_count:
  "sessions_lines rt doc pathList = Inr ls \<Longrightarrow> count_list ls WarningLine = 0"
  by (auto simp: sessions_lines_def bind_err_def Let_def count_post_lines
        split: option.splits sum.splits if_splits)

lemma header_warning_count:
  "count_list (header_lines swaggerUiLink bakedBaseUrl) WarningLine = 0"
  by (auto simp: header_lines_def split: option.splits)

text \<open>In the whole output the warning stands once for each prioritised route that lacks
  the \<open>409\<close> response, and nowhere else.\<close>

lemma test_lines_warning_count:
  assumes "test_lines rt swaggerDoc swaggerUiLink bakedBaseUrl = Inr out"
      and "get_prop swaggerDoc ''paths'' = Inr p"
      and "sort_pathList (entries (if truthy p then p else JObj [])) = Inr pathList"
  shows "count_list out WarningLine =
           (if missing_409 pathList ''/users'' then 1 else 0) +
           (if missing_409 pathList ''/trainees'' then 1 else 0)"
proof -
  from test_lines_parts [OF assms(1)] assms(2,3)
  obtain users trainees sessions general where
    u: "prioritized_lines rt swaggerDoc pathList ''/users'' = Inr users" and
    t: "prioritized_lines rt swaggerDoc pathList ''/trainees'' = Inr trainees" and
    s: "sessions_lines rt swaggerDoc pathList = Inr sessions" and
    g: "general_lines rt swaggerDoc pathList = Inr general" and
    out: "out = header_lines swaggerUiLink bakedBaseUrl @ users @ trainees @ sessions @
                general @ [BlankLine, RunLine]"
    by auto
  have "count_list general WarningLine = 0"
    using general_lines_tests [OF g] count_no_tests [of general] by blast
  with prioritized_warning_count [OF u] prioritized_warning_count [OF t]
    sessions_warning_count [OF s] header_warning_count [of swaggerUiLink bakedBaseUrl] out
  show ?thesis by simp
qed

lemma post_declared:
  "truthy (own_get methods ''post'') \<Longrightarrow> ''post'' \<in> set (keys methods)"
  by (cases methods)
     (auto simp: keys_def array_index_def is_digit_def split: option.splits if_splits
       dest!: map_of_SomeD intro: rev_image_eqI)

text \<open>
  Claim C9. For a prioritised route (\<open>/users\<close> or \<open>/trainees\<close>, the routes of priority
  class 1) that declares a \<open>POST\<close> operation, the lines emitted for the route contain
  the warning exactly once when \<open>409\<close> is not among the operation's status codes and
  not at all when it is. In the whole output the warning stands once for each such
  route without \<open>409\<close> and nowhere else.
\<close>

theorem duplicate_check_warning:
  assumes "find (\<lambda>item. fst item = route) pathList = Some item"
      and "truthy (own_get (snd item) ''post'')"
      and "prioritized_lines rt doc pathList route = Inr ls"
  shows "count_list ls WarningLine =
           (if ''409'' \<in> set (response_codes (own_get (snd item) ''post'')) then 0 else 1)
         \<and> (route \<in> {''/users'', ''/trainees''} \<longrightarrow> priorityFor item = 1)
         \<and> (\<forall>swaggerUiLink bakedBaseUrl p out.
               get_prop doc ''paths'' = Inr p \<and>
               sort_pathList (entries (if truthy p then p else JObj [])) = Inr pathList \<and>
               test_lines rt doc swaggerUiLink bakedBaseUrl = Inr out \<longrightarrow>
               count_list out WarningLine =
                 (if missing_409 pathList ''/users'' then 1 else 0) +
                 (if missing_409 pathList ''/trainees'' then 1 else 0))"
proof -
  have a: "count_list ls WarningLine =
           (if ''409'' \<in> set (response_codes (own_get (snd item) ''post'')) then 0 else 1)"
    using prioritized_warning_count [OF assms(3)] assms(1,2) by (simp add: missing_409_def)
  have "fst item = route"
    using assms(1) by (auto simp: find_Some_iff)
  then have b: "route \<in> {''/users'', ''/trainees''} \<longrightarrow> priorityFor item = 1"
    using post_declared [OF assms(2)] by (auto simp: priorityFor_def)
  from a b test_lines_warning_count show ?thesis by blast
qed

lemma users_pathList: "sort_pathList [users_item codes] = Inr [users_item codes]"
  by (simp add: sort_pathList_def js_sort_def)

lemma users_request_example:
  "request_example rt True doc (JObj [(''responses'', r)]) = Inr JUndefined"
  by (simp add: request_example_def bind_err_def get_prop_def get_opt_def media_example_def)

lemma users_prioritized:
  "prioritized_lines rt doc [users_item codes] ''/users'' =
     Inr (map users_post_line (emitted_codes codes) @
          (if ''409'' \<in> set (emitted_codes codes) then [] else [WarningLine]))"
  by (simp add: prioritized_lines_def users_item_def bind_err_def get_prop_def
        users_request_example response_codes_def keys_def comp_def post_line_def or_empty_def
        users_post_line_def)

lemma lower_post: "toLowerCase ''post'' = ''post''"
  by code_simp

lemma users_general: "general_lines rt doc [users_item codes] = Inr []"
  by (simp add: general_lines_def route_lines_def users_item_def nullish_def bind_err_def
        skipped_def lower_post)

lemma users_paths: "get_prop (users_doc codes) ''paths'' = Inr (JObj [users_item codes])"
  by (simp add: users_doc_def users_item_def get_prop_def)

text \<open>The whole output for a document whose only route is \<open>/users\<close> with a \<open>POST\<close>.\<close>

lemma users_plan:
  "test_lines rt (users_doc codes) None base =
     Inr (header_lines None base @
          map users_post_line (emitted_codes codes) @
          (if ''409'' \<in> set (emitted_codes codes) then [] else [WarningLine]) @
          [BlankLine, RunLine])"
proof -
  have t: "prioritized_lines rt (users_doc codes) [users_item codes] ''/trainees'' = Inr []"
    by (simp add: prioritized_lines_def users_item_def)
  have s: "sessions_lines rt (users_doc codes) [users_item codes] = Inr []"
    by (simp add: sessions_lines_def users_item_def)
  show ?thesis
    by (simp add: test_lines_def users_paths bind_err_def users_pathList users_prioritized t s
          users_general)
qed

theorem duplicate_check_warning_witness:
  "prioritized_lines sample_runtime (users_doc [''201'', ''400'']) [users_item [''201'', ''400'']] ''/users'' =
     Inr [users_post_line ''400'', users_post_line ''201'', WarningLine]
   \<and> count_list [users_post_line ''400'', users_post_line ''201'', WarningLine] WarningLine = 1
   \<and> prioritized_lines sample_runtime (users_doc [''201'', ''409'', ''500''])
        [users_item [''201'', ''409'', ''500'']] ''/users'' =
     Inr [users_post_line ''409'', users_post_line ''201'']
   \<and> count_list [users_post_line ''409'', users_post_line ''201''] WarningLine = 0
   \<and> test_lines sample_runtime (users_doc [''201'', ''409'', ''500'']) None ''http://localhost:3000'' =
     Inr [BaseUrlLine ''http://localhost:3000'', BlankLine, CommentLine, UsernameLine,
          PasswordLine, BlankLine, ProbeLine, BlankLine,
          users_post_line ''409'', users_post_line ''201'', BlankLine, RunLine]"
proof -
  have e1: "emitted_codes [''201'', ''400''] = [''400'', ''201'']" by code_simp
  have e2: "emitted_codes [''201'', ''409'', ''500''] = [''409'', ''201'']" by code_simp
  have f: "find (\<lambda>item. fst item = ''/users'') [users_item codes] = Some (users_item codes)"
    for codes by (simp add: users_item_def)
  have t: "truthy (own_get (snd (users_item codes)) ''post'')" for codes
    by (simp add: users_item_def)
  have r: "response_codes (own_get (snd (users_item codes)) ''post'') = codes" for codes
    by (simp add: users_item_def response_codes_def keys_def comp_def)
  have p1: "prioritized_lines sample_runtime (users_doc [''201'', ''400'']) [users_item [''201'', ''400'']]
              ''/users'' = Inr [users_post_line ''400'', users_post_line ''201'', WarningLine]"
    by (simp add: users_prioritized e1)
  have p2: "prioritized_lines sample_runtime (users_doc [''201'', ''409'', ''500''])
              [users_item [''201'', ''409'', ''500'']] ''/users'' =
            Inr [users_post_line ''409'', users_post_line ''201'']"
    by (simp add: users_prioritized e2)
  have w: "test_lines sample_runtime (users_doc [''201'', ''409'', ''500'']) None ''http://localhost:3000'' =
     Inr [BaseUrlLine ''http://localhost:3000'', BlankLine, CommentLine, UsernameLine,
          PasswordLine, BlankLine, ProbeLine, BlankLine,
          users_post_line ''409'', users_post_line ''201'', BlankLine, RunLine]"
    by (simp add: users_plan e2 header_lines_def)
  from duplicate_check_warning [OF f t p1, THEN conjunct1]
       duplicate_check_warning [OF f t p2, THEN conjunct1] p1 p2 w
  show ?thesis by (simp add: r)
qed

section \<open>Example extraction\<close>

lemma falsy_keys: "\<not> truthy v \<Longrightarrow> keys v = []"
  by (cases v) (auto simp: keys_def)


lemma truthy_get_opt: "truthy v \<Longrightarrow> get_opt v p = own_get v p"
  by (cases v) (auto simp: get_opt_def)



text \<open>Where the strict copies are not defined, they throw.\<close>

lemma examples_value_throws:
  assumes "truthy media" and "first_key (get_opt media ''examples'') \<noteq> Some []"
      and "\<not> strict_defined media"
  shows "examples_value True media = Inl TypeError"
proof -
  from assms(3) obtain k where k: "first_key (get_opt media ''examples'') = Some k"
    and n: "nullish (own_get (get_opt media ''examples'') k)"
    by (auto simp: strict_defined_def split: option.splits)
  have "truthy (own_get media ''examples'')"
  proof (rule ccontr)
    assume "\<not> truthy (own_get media ''examples'')"
    then have "keys (own_get media ''examples'') = []" by (rule falsy_keys)
    with k assms(1) show False by (simp add: truthy_get_opt first_key_def)
  qed
  with k n assms(1,2) show ?thesis
    by (auto simp: examples_value_def truthy_get_opt Let_def get_prop_def nullish_def)
qed







text \<open>
  The strict copies throw where the first entry of \<open>examples\<close> is \<open>null\<close>.
\<close>

lemma media_example_throws:
  assumes "truthy media" and "first_key (get_opt media ''examples'') \<noteq> Some []"
      and "\<not> strict_defined media"
  shows "media_example rt True doc media = Inl TypeError"
  using assms examples_value_throws [OF assms]
  by (simp add: media_example_def bind_err_def)















section \<open>The choice of the test line\<close>

lemma upper_post: "toUpperCase ''post'' = ''POST''"
  by code_simp

lemma post_not_get_delete: "toLowerCase ''post'' \<notin> {''get'', ''delete''}"
  by (simp add: lower_post)

lemma item_request_example:
  "request_example rt False doc item_operation = Inr (JObj [(''name'', JStr ''x'')])"
  by (simp add: request_example_def item_operation_def bind_err_def get_prop_def get_opt_def
        media_example_def examples_value_def Let_def)

lemma item_response_parts: "response_parts rt doc item_operation ''400'' = Inr ([], JUndefined)"
  by (simp add: response_parts_def item_operation_def bind_err_def get_prop_def get_opt_def
        response_example_def content_example_def Let_def)

lemma parseInt_400: "parseInt ''400'' = Some 400"
  by code_simp

lemma two_field_response_parts:
  "response_parts rt doc (operation_with two_field_media) ''200'' =
     Inr ([], JObj [(''id'', JNum ''1''), (''name'', JStr ''x'')])"
  by (simp add: response_parts_def operation_with_def two_field_media_def bind_err_def
        get_prop_def get_opt_def response_example_def content_example_def Let_def)

lemma two_field_request_example:
  "request_example rt False doc (operation_with two_field_media) = Inr JUndefined"
  by (simp add: request_example_def operation_with_def bind_err_def get_prop_def get_opt_def
        media_example_def)

text \<open>
  The \<open>POST\<close> lines of \<open>/users\<close>, \<open>/trainees\<close> and \<open>/sessions\<close> come from passes of their
  own: the body is the request example, and the callback depends on the entry
  \<open>callback\<close> of the operation alone.
\<close>

lemma post_lines_shape:
  assumes "find (\<lambda>item. fst item = proute) pathList = Some item"
      and "truthy (own_get (snd item) ''post'')"
      and "prioritized_lines rt doc pathList proute = Inr ls \<or>
           proute = ''/sessions'' \<and> sessions_lines rt doc pathList = Inr ls"
  shows "\<exists>body. request_example rt True doc (own_get (snd item) ''post'') = Inr body \<and>
           (\<forall>l. TestCase l \<in> set ls \<longrightarrow>
                t_url l = ''POST '' @ proute \<and> t_body l = Some (or_empty body) \<and>
                t_callback l =
                  (if truthy (own_get (own_get (snd item) ''post'') ''callback'')
                   then ExpectFields [''message''] else NoCallback))"
  using assms
  by (auto simp: prioritized_lines_def sessions_lines_def bind_err_def get_prop_def Let_def
        post_line_def split: sum.splits if_splits)

lemma users_400_prioritized:
  "prioritized_lines rt (users_doc [''400'']) [users_item [''400'']] ''/users'' =
     Inr [TestCase \<lparr>t_url = ''POST /users'', t_auth = False, t_code = ''400'',
                    t_body = Some (JObj []), t_callback = NoCallback\<rparr>,
          WarningLine]"
proof -
  have e: "emitted_codes [''400''] = [''400'']" by code_simp
  show ?thesis by (simp add: users_prioritized e users_post_line_def)
qed

lemma users_400_response_parts:
  "response_parts rt doc (JObj [(''responses'', JObj [(''400'', JObj [])])]) ''400'' =
     Inr ([], JUndefined)"
  by (simp add: response_parts_def bind_err_def get_prop_def get_opt_def
        response_example_def content_example_def Let_def)

text \<open>
  Claim C2, as stated, fails in its steps (b) and (c). An operation with a request
  example and a \<open>400\<close> response that has neither fields with examples nor an example
  gets a line with the request example as body and no callback, where the stated
  precedence asks for the assertion of a \<open>message\<close> field: the branch for a found
  request example comes before the test of the status code. And for a response example
  with the fields \<open>id\<close> and \<open>name\<close> the callback asserts both, not the first field
  alone. The claim also fails for the \<open>POST\<close> lines of the prioritised routes, which do
  not go through this choice: \<open>POST /users\<close> with a bare \<open>400\<close> response and no
  \<open>callback\<close> entry gets no callback.
\<close>

theorem error_without_message_counterexample:
  "emit_case sample_runtime JNull ''/items'' ''post'' item_operation ''400'' =
     Inr (TestCase \<lparr>t_url = ''POST /items'', t_auth = False, t_code = ''400'',
                     t_body = Some (JObj [(''name'', JStr ''x'')]), t_callback = NoCallback\<rparr>)
   \<and> response_parts sample_runtime JNull item_operation ''400'' = Inr ([], JUndefined)
   \<and> spec_callback [] JUndefined ''400'' = ExpectFields [''message'']
   \<and> emit_case sample_runtime JNull ''/items'' ''post'' (operation_with two_field_media) ''200'' =
     Inr (TestCase \<lparr>t_url = ''POST /items'', t_auth = False, t_code = ''200'',
                     t_body = Some (JObj []), t_callback = ExpectFields [''id'', ''name'']\<rparr>)
   \<and> spec_callback [] (JObj [(''id'', JNum ''1''), (''name'', JStr ''x'')]) ''200'' =
     ExpectFields [''id'']
   \<and> prioritized_lines sample_runtime (users_doc [''400'']) [users_item [''400'']] ''/users'' =
     Inr [TestCase \<lparr>t_url = ''POST /users'', t_auth = False, t_code = ''400'',
                    t_body = Some (JObj []), t_callback = NoCallback\<rparr>,
          WarningLine]
   \<and> response_parts sample_runtime (users_doc [''400'']) (JObj [(''responses'', JObj [(''400'', JObj [])])])
       ''400'' = Inr ([], JUndefined)"
proof -
  have a: "emit_case sample_runtime JNull ''/items'' ''post'' item_operation ''400'' =
     Inr (TestCase \<lparr>t_url = ''POST /items'', t_auth = False, t_code = ''400'',
                     t_body = Some (JObj [(''name'', JStr ''x'')]), t_callback = NoCallback\<rparr>)"
    by (simp add: emit_case_def lower_post item_request_example item_response_parts
          bind_err_def emit_line_def upper_post)
  have b: "spec_callback [] JUndefined ''400'' = ExpectFields [''message'']"
    by (simp add: spec_callback_def parseInt_400 in_error_range_def)
  have c: "emit_case sample_runtime JNull ''/items'' ''post'' (operation_with two_field_media) ''200'' =
     Inr (TestCase \<lparr>t_url = ''POST /items'', t_auth = False, t_code = ''200'',
                     t_body = Some (JObj []), t_callback = ExpectFields [''id'', ''name'']\<rparr>)"
    by (simp add: emit_case_def lower_post two_field_request_example two_field_response_parts
          bind_err_def emit_line_def upper_post keys_def or_empty_def)
  have d: "spec_callback [] (JObj [(''id'', JNum ''1''), (''name'', JStr ''x'')]) ''200'' =
             ExpectFields [''id'']"
    by (simp add: spec_callback_def keys_def)
  from a b c d item_response_parts [of sample_runtime JNull]
    users_400_prioritized [of sample_runtime] users_400_response_parts [of sample_runtime "users_doc [''400'']"]
  show ?thesis by simp
qed

text \<open>
  Claim C2, amended. In the general pass (every group other than \<open>POST /users\<close>,
  \<open>POST /trainees\<close> and \<open>POST /sessions\<close>), for a method other than \<open>GET\<close> and \<open>DELETE\<close>,
  once the request example and the response parts have been extracted, one test line
  is emitted for the status code, chosen by this precedence: (a) if the response schema has at least one
  field with an example, the callback asserts all these fields; (b) else if the response
  example is an object, the body is the request example, or an empty object if there
  is none, and the callback asserts all fields of the response example (no callback
  when it has no field); (c) else if a request example was found, the body is that
  example and there is no callback; (d) else the body is an empty object, and the
  callback asserts a \<open>message\<close> field if the status code is in the range 400 to 599 and
  is absent otherwise. The \<open>POST\<close> lines of \<open>/users\<close>, \<open>/trainees\<close> and \<open>/sessions\<close> are
  emitted by passes of their own, one line for each status code of the operation other
  than \<open>500\<close>: the body is the request example, or an empty object if there is none,
  and the callback asserts a \<open>message\<close> field when the operation has a truthy entry
  \<open>callback\<close> and is absent otherwise.
\<close>

theorem emit_case_precedence:
  assumes "toLowerCase meth \<notin> {''get'', ''delete''}"
      and "request_example rt False doc detail = Inr exampleBody"
      and "response_parts rt doc detail code = Inr (fieldsWithExamples, responseExample)"
  shows "let l = emit_line meth route code exampleBody fieldsWithExamples responseExample;
             object = (truthy responseExample \<and> typeof_object responseExample)
         in emit_case rt doc route meth detail code = Inr (TestCase l)
            \<and> t_url l = toUpperCase meth @ '' '' @ route \<and> t_code l = code
            \<and> (fieldsWithExamples \<noteq> [] \<longrightarrow> t_callback l = ExpectFields fieldsWithExamples)
            \<and> (fieldsWithExamples = [] \<and> object \<longrightarrow>
                  t_body l = Some (or_empty exampleBody) \<and>
                  t_callback l = (if keys responseExample = [] then NoCallback
                                  else ExpectFields (keys responseExample)))
            \<and> (fieldsWithExamples = [] \<and> \<not> object \<and> exampleBody \<noteq> JUndefined \<longrightarrow>
                  t_body l = Some exampleBody \<and> t_callback l = NoCallback)
            \<and> (fieldsWithExamples = [] \<and> \<not> object \<and> exampleBody = JUndefined \<longrightarrow>
                  t_body l = Some (JObj []) \<and>
                  t_callback l = (if in_error_range (parseInt code)
                                  then ExpectFields [''message''] else NoCallback))
            \<and> (\<forall>pathList proute item ls.
                  find (\<lambda>item. fst item = proute) pathList = Some item \<and>
                  truthy (own_get (snd item) ''post'') \<and>
                  (prioritized_lines rt doc pathList proute = Inr ls \<or>
                   proute = ''/sessions'' \<and> sessions_lines rt doc pathList = Inr ls) \<longrightarrow>
                  (\<exists>body. request_example rt True doc (own_get (snd item) ''post'') = Inr body \<and>
                     (\<forall>l. TestCase l \<in> set ls \<longrightarrow>
                          t_url l = ''POST '' @ proute \<and> t_body l = Some (or_empty body) \<and>
                          t_callback l =
                            (if truthy (own_get (own_get (snd item) ''post'') ''callback'')
                             then ExpectFields [''message''] else NoCallback))) \<and>
                  List.map_filter line_code ls =
                    emitted_codes (response_codes (own_get (snd item) ''post'')))"
proof -
  have general:
    "let l = emit_line meth route code exampleBody fieldsWithExamples responseExample;
         object = (truthy responseExample \<and> typeof_object responseExample)
     in emit_case rt doc route meth detail code = Inr (TestCase l)
        \<and> t_url l = toUpperCase meth @ '' '' @ route \<and> t_code l = code
        \<and> (fieldsWithExamples \<noteq> [] \<longrightarrow> t_callback l = ExpectFields fieldsWithExamples)
        \<and> (fieldsWithExamples = [] \<and> object \<longrightarrow>
              t_body l = Some (or_empty exampleBody) \<and>
              t_callback l = (if keys responseExample = [] then NoCallback
                              else ExpectFields (keys responseExample)))
        \<and> (fieldsWithExamples = [] \<and> \<not> object \<and> exampleBody \<noteq> JUndefined \<longrightarrow>
              t_body l = Some exampleBody \<and> t_callback l = NoCallback)
        \<and> (fieldsWithExamples = [] \<and> \<not> object \<and> exampleBody = JUndefined \<longrightarrow>
              t_body l = Some (JObj []) \<and>
              t_callback l = (if in_error_range (parseInt code)
                              then ExpectFields [''message''] else NoCallback))"
    using assms
    by (auto simp: emit_case_def bind_err_def emit_line_def Let_def)
  have post: "(\<exists>body. request_example rt True doc (own_get (snd item) ''post'') = Inr body \<and>
                 (\<forall>l. TestCase l \<in> set ls \<longrightarrow>
                      t_url l = ''POST '' @ proute \<and> t_body l = Some (or_empty body) \<and>
                      t_callback l =
                        (if truthy (own_get (own_get (snd item) ''post'') ''callback'')
                         then ExpectFields [''message''] else NoCallback))) \<and>
              List.map_filter line_code ls =
                emitted_codes (response_codes (own_get (snd item) ''post''))"
    if "find (\<lambda>item. fst item = proute) pathList = Some item"
       "truthy (own_get (snd item) ''post'')"
       "prioritized_lines rt doc pathList proute = Inr ls \<or>
        proute = ''/sessions'' \<and> sessions_lines rt doc pathList = Inr ls"
    for pathList proute item ls
    using post_lines_shape [OF that] that prioritized_codes [of rt doc pathList proute ls item]
      sessions_codes [of rt doc pathList ls item]
    by blast
  from general post show ?thesis
    unfolding Let_def by blast
qed

theorem emit_case_precedence_witness:
  "toLowerCase ''post'' \<notin> {''get'', ''delete''}
   \<and> request_example sample_runtime False JNull item_operation =
       Inr (JObj [(''name'', JStr ''x'')])
   \<and> response_parts sample_runtime JNull item_operation ''400'' = Inr ([], JUndefined)
   \<and> emit_case sample_runtime JNull ''/items'' ''post'' item_operation ''400'' =
       Inr (TestCase (emit_line ''post'' ''/items'' ''400'' (JObj [(''name'', JStr ''x'')]) []
                        JUndefined))
   \<and> t_body (emit_line ''post'' ''/items'' ''400'' (JObj [(''name'', JStr ''x'')]) []
               JUndefined) = Some (JObj [(''name'', JStr ''x'')])
   \<and> t_callback (emit_line ''post'' ''/items'' ''400'' (JObj [(''name'', JStr ''x'')]) []
                   JUndefined) = NoCallback"
proof -
  note r = item_request_example [of sample_runtime JNull]
  note p = item_response_parts [of sample_runtime JNull]
  have "emit_case sample_runtime JNull ''/items'' ''post'' item_operation ''400'' =
          Inr (TestCase (emit_line ''post'' ''/items'' ''400'' (JObj [(''name'', JStr ''x'')]) []
                           JUndefined))
        \<and> t_body (emit_line ''post'' ''/items'' ''400'' (JObj [(''name'', JStr ''x'')]) []
                    JUndefined) = Some (JObj [(''name'', JStr ''x'')])
        \<and> t_callback (emit_line ''post'' ''/items'' ''400'' (JObj [(''name'', JStr ''x'')]) []
                        JUndefined) = NoCallback"
    using emit_case_precedence [OF post_not_get_delete r p, of "''/items''"]
    unfolding Let_def by simp
  with post_not_get_delete r p show ?thesis by simp
qed

end
